theory Spec2Isabelle
  imports Main
begin

section \<open>Values, promises and the native layer\<close>

text \<open>
  The JavaScript of the application is asynchronous: every service function is an
  \<^verbatim>\<open>async function\<close> and returns a promise. A settled promise is modelled by a sum:
  \<open>Inl e\<close> is a promise rejected with \<open>e\<close>, \<open>Inr v\<close> one resolved with \<open>v\<close>. The
  awaited calls of one function are run one after the other. The functions the speaker
  screen starts without \<^verbatim>\<open>await\<close> stay pending together; there the model has one event
  for each point at which a pending call settles, in any order (see \<open>step\<close> below).

  A JavaScript string is modelled by the bytes of its UTF-8 encoding: \<open>string\<close> is a list
  of bytes, a character beyond ASCII is two to four of them (U+00A0 is \<open>CHR 0xC2\<close>,
  \<open>CHR 0xA0\<close>), and two well-formed strings are equal exactly when their encodings are.
  SQLite stores and compares \<^verbatim>\<open>TEXT\<close> in this form. Strings with an unpaired surrogate have
  no encoding and are left out.
\<close>

datatype error = TypeError | SQLiteError | ReferenceError | HttpError | FileSystemError

type_synonym 'a promise = "error + 'a"

text \<open>
  What the world outside the program does with one native call (one SQL statement, one
  file-system call): it goes through, or it throws.
\<close>

datatype io = Ok | Fault

text \<open>
  A nullable JavaScript string is a \<open>string option\<close>; \<open>None\<close> stands for \<^verbatim>\<open>null\<close> and
  \<^verbatim>\<open>undefined\<close>. The values the conditions of the source treat as false are \<^verbatim>\<open>null\<close>,
  \<^verbatim>\<open>undefined\<close> and the empty string.
\<close>

fun truthy :: "string option \<Rightarrow> bool" where
  "truthy None = False"
| "truthy (Some s) = (s \<noteq> [])"

text \<open>The expression \<^verbatim>\<open>x || d\<close> on a nullable string \<open>x\<close> and a string \<open>d\<close>.\<close>

fun or_else :: "string option \<Rightarrow> string \<Rightarrow> string" where
  "or_else None d = d"
| "or_else (Some s) d = (if s \<noteq> [] then s else d)"

section \<open>DatabaseService: the tables\<close>

text \<open>
  \<^verbatim>\<open>CREATE TABLE settings (id INTEGER PRIMARY KEY NOT NULL, language TEXT DEFAULT 'en')\<close>
  and
  \<^verbatim>\<open>CREATE TABLE translations (id INTEGER PRIMARY KEY AUTOINCREMENT NOT NULL,
  original_text TEXT NOT NULL, language TEXT NOT NULL, translated_text TEXT NOT NULL)\<close>.
  A table is the list of its rows in rowid order; a table that was never created is
  \<open>None\<close>. \<open>sqlite_sequence\<close> is the largest rowid \<^verbatim>\<open>AUTOINCREMENT\<close> has handed out.
\<close>

record settings_row =
  s_id :: int
  s_language :: "string option"

record translation_row =
  t_id :: int
  t_original_text :: string
  t_language :: string
  t_translated_text :: string

record database =
  settings_table :: "settings_row list option"
  translations_table :: "translation_row list option"
  sqlite_sequence :: int

text \<open>
  The module variable \<^verbatim>\<open>let db;\<close> together with the database file it points to.
  \<open>db_defined\<close> is false until \<^verbatim>\<open>setupDatabase\<close> has assigned the handle.
\<close>

record store =
  db_defined :: bool
  disk :: database

definition empty_disk :: database where
  "empty_disk = \<lparr>settings_table = None, translations_table = None, sqlite_sequence = 0\<rparr>"

definition initial_store :: store where
  "initial_store = \<lparr>db_defined = False, disk = empty_disk\<rparr>"

subsection \<open>The SQL statements of the module\<close>

text \<open>A statement reads the database (\<open>database \<Rightarrow> error + 'a\<close>) or writes it
  (\<open>database \<Rightarrow> error + database\<close>); a statement on a missing table throws.\<close>

definition create_settings_table :: "database \<Rightarrow> error + database" where
  "create_settings_table d =
     (case settings_table d of
        None \<Rightarrow> Inr (d\<lparr>settings_table := Some []\<rparr>)
      | Some rows \<Rightarrow> Inr d)"

definition create_translations_table :: "database \<Rightarrow> error + database" where
  "create_translations_table d =
     (case translations_table d of
        None \<Rightarrow> Inr (d\<lparr>translations_table := Some []\<rparr>)
      | Some rows \<Rightarrow> Inr d)"

definition select_count_settings :: "database \<Rightarrow> error + nat" where
  "select_count_settings d =
     (case settings_table d of None \<Rightarrow> Inl SQLiteError | Some rows \<Rightarrow> Inr (length rows))"

definition insert_default_settings :: "database \<Rightarrow> error + database" where
  "insert_default_settings d =
     (case settings_table d of
        None \<Rightarrow> Inl SQLiteError
      | Some rows \<Rightarrow>
          if 1 \<in> set (map s_id rows) then Inl SQLiteError
          else Inr (d\<lparr>settings_table :=
                  Some (rows @ [\<lparr>s_id = 1, s_language = Some ''en''\<rparr>])\<rparr>))"

text \<open>
  The language argument of the two statements below comes from a piece of React state that
  starts as \<^verbatim>\<open>null\<close>, so it is nullable here. In SQL a comparison with \<^verbatim>\<open>NULL\<close> selects no
  row, and \<^verbatim>\<open>NULL\<close> in a \<^verbatim>\<open>NOT NULL\<close> column is a constraint error.
\<close>

definition select_translation ::
  "string \<Rightarrow> string option \<Rightarrow> database \<Rightarrow> error + translation_row option" where
  "select_translation originalText language d =
     (case translations_table d of
        None \<Rightarrow> Inl SQLiteError
      | Some rows \<Rightarrow>
          Inr (find (\<lambda>r. t_original_text r = originalText \<and> Some (t_language r) = language)
                 rows))"

text \<open>The rowid \<^verbatim>\<open>AUTOINCREMENT\<close> gives the next row: one more than the largest rowid
  that ever was in the table.\<close>

definition next_rowid :: "database \<Rightarrow> translation_row list \<Rightarrow> int" where
  "next_rowid d rows = fold max (map t_id rows) (sqlite_sequence d) + 1"

definition insert_translation ::
  "string \<Rightarrow> string option \<Rightarrow> string \<Rightarrow> database \<Rightarrow> error + database" where
  "insert_translation originalText langauge translatedText d =
     (case translations_table d of
        None \<Rightarrow> Inl SQLiteError
      | Some rows \<Rightarrow>
          (case langauge of
             None \<Rightarrow> Inl SQLiteError
           | Some l \<Rightarrow>
               Inr (d\<lparr>translations_table :=
                        Some (rows @ [\<lparr>t_id = next_rowid d rows, t_original_text = originalText,
                                       t_language = l, t_translated_text = translatedText\<rparr>]),
                      sqlite_sequence := next_rowid d rows\<rparr>)))"

definition select_all_translations :: "database \<Rightarrow> error + translation_row list" where
  "select_all_translations d =
     (case translations_table d of None \<Rightarrow> Inl SQLiteError | Some rows \<Rightarrow> Inr rows)"

definition select_all_settings :: "database \<Rightarrow> error + settings_row list" where
  "select_all_settings d =
     (case settings_table d of None \<Rightarrow> Inl SQLiteError | Some rows \<Rightarrow> Inr rows)"

definition update_settings_language :: "string \<Rightarrow> database \<Rightarrow> error + database" where
  "update_settings_language language d =
     (case settings_table d of
        None \<Rightarrow> Inl SQLiteError
      | Some rows \<Rightarrow>
          Inr (d\<lparr>settings_table :=
                   Some (map (\<lambda>r. if s_id r = 1 then r\<lparr>s_language := Some language\<rparr> else r)
                          rows)\<rparr>))"

definition delete_translation :: "int \<Rightarrow> database \<Rightarrow> error + database" where
  "delete_translation i d =
     (case translations_table d of
        None \<Rightarrow> Inl SQLiteError
      | Some rows \<Rightarrow> Inr (d\<lparr>translations_table := Some (filter (\<lambda>r. t_id r \<noteq> i) rows)\<rparr>))"

subsection \<open>Calls on the handle\<close>

text \<open>
  \<^verbatim>\<open>await db.getFirstAsync(..)\<close>, \<^verbatim>\<open>db.getAllAsync(..)\<close>: a method call on an undefined
  \<^verbatim>\<open>db\<close> throws a TypeError, a statement the engine cannot run throws.
\<close>

definition query :: "io \<Rightarrow> (database \<Rightarrow> error + 'a) \<Rightarrow> store \<Rightarrow> error + 'a" where
  "query w stmt st =
     (if \<not> db_defined st then Inl TypeError
      else case w of Fault \<Rightarrow> Inl SQLiteError | Ok \<Rightarrow> stmt (disk st))"

text \<open>\<^verbatim>\<open>await db.runAsync(..)\<close>, \<^verbatim>\<open>db.execAsync(..)\<close>: the same, and the database changes.\<close>

definition runAsync :: "io \<Rightarrow> (database \<Rightarrow> error + database) \<Rightarrow> store \<Rightarrow> error + store" where
  "runAsync w stmt st =
     (case query w stmt st of Inl e \<Rightarrow> Inl e | Inr d \<Rightarrow> Inr (st\<lparr>disk := d\<rparr>))"

subsection \<open>The exported functions\<close>

text \<open>Each function is one \<^verbatim>\<open>try { .. } catch (error) { console.error(..) }\<close>; the
  result is the settled promise and the store afterwards.\<close>

definition setupDatabase :: "io \<Rightarrow> io \<Rightarrow> io \<Rightarrow> store \<Rightarrow> unit promise \<times> store" where
  "setupDatabase w_open w1 w2 st =
     (case w_open of
        Fault \<Rightarrow> (Inr (), st)
      | Ok \<Rightarrow>
          (case runAsync w1 create_settings_table (st\<lparr>db_defined := True\<rparr>) of
             Inl e \<Rightarrow> (Inr (), st\<lparr>db_defined := True\<rparr>)
           | Inr st1 \<Rightarrow>
               (case runAsync w2 create_translations_table st1 of
                  Inl e \<Rightarrow> (Inr (), st1)
                | Inr st2 \<Rightarrow> (Inr (), st2))))"

definition loadInitialData :: "io \<Rightarrow> io \<Rightarrow> store \<Rightarrow> unit promise \<times> store" where
  "loadInitialData w1 w2 st =
     (case query w1 select_count_settings st of
        Inl e \<Rightarrow> (Inr (), st)
      | Inr settingsCount \<Rightarrow>
          if settingsCount = 0 then
            (case runAsync w2 insert_default_settings st of
               Inl e \<Rightarrow> (Inr (), st)
             | Inr st' \<Rightarrow> (Inr (), st'))
          else (Inr (), st))"

definition checkIfTranslationExists ::
  "io \<Rightarrow> string \<Rightarrow> string option \<Rightarrow> store \<Rightarrow> translation_row option promise" where
  "checkIfTranslationExists w originalText language st =
     (case query w (select_translation originalText language) st of
        Inr translation \<Rightarrow> Inr translation
      | Inl e \<Rightarrow> Inr None)"

definition addTranslation ::
  "io \<Rightarrow> string \<Rightarrow> string option \<Rightarrow> string \<Rightarrow> store \<Rightarrow> unit promise \<times> store" where
  "addTranslation w originalText langauge translatedText st =
     (case runAsync w (insert_translation originalText langauge translatedText) st of
        Inr st' \<Rightarrow> (Inr (), st')
      | Inl e \<Rightarrow> (Inr (), st))"

definition fetchTranslations :: "io \<Rightarrow> store \<Rightarrow> translation_row list promise" where
  "fetchTranslations w st =
     (case query w select_all_translations st of
        Inr translations \<Rightarrow> Inr translations
      | Inl e \<Rightarrow> Inr [])"

definition fetchSettings :: "io \<Rightarrow> store \<Rightarrow> settings_row list promise" where
  "fetchSettings w st =
     (case query w select_all_settings st of
        Inr settings \<Rightarrow> Inr settings
      | Inl e \<Rightarrow> Inr [])"

definition updateSettings :: "io \<Rightarrow> string \<Rightarrow> store \<Rightarrow> unit promise \<times> store" where
  "updateSettings w language st =
     (case runAsync w (update_settings_language language) st of
        Inr st' \<Rightarrow> (Inr (), st')
      | Inl e \<Rightarrow> (Inr (), st))"

definition deleteTranslation :: "io \<Rightarrow> int \<Rightarrow> store \<Rightarrow> unit promise \<times> store" where
  "deleteTranslation w i st =
     (case runAsync w (delete_translation i) st of
        Inr st' \<Rightarrow> (Inr (), st')
      | Inl e \<Rightarrow> (Inr (), st))"

text \<open>\<^verbatim>\<open>App.initialise\<close>: \<^verbatim>\<open>await setupDatabase(); await loadInitialData();\<close>\<close>

definition initialise :: "io \<Rightarrow> io \<Rightarrow> io \<Rightarrow> io \<Rightarrow> io \<Rightarrow> store \<Rightarrow> store" where
  "initialise w_open w1 w2 w3 w4 st =
     snd (loadInitialData w3 w4 (snd (setupDatabase w_open w1 w2 st)))"

text \<open>The rows of the translations table, none when there is no table.\<close>

definition stored_translations :: "store \<Rightarrow> translation_row list" where
  "stored_translations st = (case translations_table (disk st) of None \<Rightarrow> [] | Some rows \<Rightarrow> rows)"

section \<open>Constants\<close>

text \<open>\<^verbatim>\<open>LanguageConstants.languages\<close>: the options of the language pickers.\<close>

record language_option =
  lang_label :: string
  lang_value :: string

definition languages :: "language_option list" where
  "languages =
     [\<lparr>lang_label = ''English'', lang_value = ''en''\<rparr>,
      \<lparr>lang_label = ''French'', lang_value = ''fr''\<rparr>,
      \<lparr>lang_label = ''Spanish'', lang_value = ''es''\<rparr>,
      \<lparr>lang_label = ''German'', lang_value = ''de''\<rparr>,
      \<lparr>lang_label = ''Chinese (Simplified)'', lang_value = ''zh-CN''\<rparr>,
      \<lparr>lang_label = ''Japanese'', lang_value = ''ja''\<rparr>,
      \<lparr>lang_label = ''Italian'', lang_value = ''it''\<rparr>,
      \<lparr>lang_label = ''Portuguese'', lang_value = ''pt''\<rparr>,
      \<lparr>lang_label = ''Russian'', lang_value = ''ru''\<rparr>,
      \<lparr>lang_label = ''Korean'', lang_value = ''ko''\<rparr>,
      \<lparr>lang_label = ''Hindi'', lang_value = ''hi''\<rparr>,
      \<lparr>lang_label = ''Arabic'', lang_value = ''ar''\<rparr>,
      \<lparr>lang_label = ''Dutch'', lang_value = ''nl''\<rparr>,
      \<lparr>lang_label = ''Swedish'', lang_value = ''sv''\<rparr>,
      \<lparr>lang_label = ''Norwegian'', lang_value = ''no''\<rparr>,
      \<lparr>lang_label = ''Danish'', lang_value = ''da''\<rparr>]"

text \<open>
  \<^verbatim>\<open>LanguageMapping.languageMapping\<close> is an object literal and is read by key,
  \<^verbatim>\<open>languageMapping[shortCode]\<close>. Its own keys answer with their string. The keys it
  inherits from \<^verbatim>\<open>Object.prototype\<close> answer with a function, or with the prototype object for
  \<^verbatim>\<open>__proto__\<close>: a value that is not a string and counts as true. Every other key answers
  \<^verbatim>\<open>undefined\<close>, here \<open>None\<close>.
\<close>

datatype js_value = Text string | Inherited string

definition languageMapping_entries :: "(string \<times> string) list" where
  "languageMapping_entries =
     [(''en'', ''en-US''), (''fr'', ''fr-FR''), (''es'', ''es-ES''), (''de'', ''de-DE''),
      (''zh-CN'', ''cmn-Hans-CN''), (''ja'', ''ja-JP''), (''it'', ''it-IT''),
      (''pt'', ''pt-PT''), (''ru'', ''ru-RU''), (''ko'', ''ko-KR''), (''hi'', ''hi-IN''),
      (''ar'', ''ar-SA''), (''nl'', ''nl-NL''), (''sv'', ''sv-SE''), (''no'', ''no-NO''),
      (''da'', ''da-DK'')]"

definition object_prototype_keys :: "string list" where
  "object_prototype_keys =
     [''constructor'', ''__defineGetter__'', ''__defineSetter__'', ''hasOwnProperty'',
      ''__lookupGetter__'', ''__lookupSetter__'', ''isPrototypeOf'', ''propertyIsEnumerable'',
      ''toString'', ''valueOf'', ''__proto__'', ''toLocaleString'']"

definition languageMapping :: "string \<Rightarrow> js_value option" where
  "languageMapping key =
     (case map_of languageMapping_entries key of
        Some locale \<Rightarrow> Some (Text locale)
      | None \<Rightarrow> if key \<in> set object_prototype_keys then Some (Inherited key) else None)"

text \<open>The expression \<^verbatim>\<open>v || d\<close> on what a key answers and a string \<open>d\<close>.\<close>

fun value_or :: "js_value option \<Rightarrow> string \<Rightarrow> js_value" where
  "value_or None d = Text d"
| "value_or (Some (Text s)) d = (if s \<noteq> [] then Text s else Text d)"
| "value_or (Some (Inherited k)) d = Inherited k"

section \<open>The remote services\<close>

text \<open>
  What a \<^verbatim>\<open>fetch\<close> leads to: \<open>Rejected\<close> when the call or the reading of the body throws,
  \<open>NotOk\<close> for a response whose \<^verbatim>\<open>ok\<close> flag is false, \<open>Body b\<close> for an accepted response
  with the part \<open>b\<close> of the body the caller reads.
\<close>

datatype 'a response = Rejected | NotOk | Body 'a

section \<open>TranslateScreen: transcription\<close>

datatype platform = Ios | Android | OtherOS

record speech_request =
  encoding :: string
  sampleRateHertz :: nat
  languageCode :: js_value
  content :: string

text \<open>What is left of the screen's run for an observer: the requests that went to the
  speech service, the alerts shown, and the \<^verbatim>\<open>transcription\<close> state.\<close>

record transcribe_result =
  sent :: "speech_request list"
  alerts :: "string list"
  transcription :: "string option"

text \<open>\<^verbatim>\<open>s.replace(pat, rep)\<close> with a string pattern: the first occurrence only.\<close>

fun replace_first :: "string \<Rightarrow> string \<Rightarrow> string \<Rightarrow> string" where
  "replace_first pat rep [] = (if pat = [] then rep else [])"
| "replace_first pat rep (c # cs) =
     (if take (length pat) (c # cs) = pat then rep @ drop (length pat) (c # cs)
      else c # replace_first pat rep cs)"

text \<open>\<^verbatim>\<open>xs.join("\n")\<close>\<close>

fun join_lines :: "string list \<Rightarrow> string" where
  "join_lines [] = []"
| "join_lines [x] = x"
| "join_lines (x # y # ys) = x @ [CHR 0x0A] @ join_lines (y # ys)"

text \<open>The two lines that resolve the language of the recording from the settings rows.\<close>

definition shortCode_of :: "settings_row list \<Rightarrow> string" where
  "shortCode_of settings =
     (case settings of
        [] \<Rightarrow> ''en-GB''
      | first # rest \<Rightarrow> if truthy (s_language first) then the (s_language first) else ''en-GB'')"

definition languageCode_of :: "settings_row list \<Rightarrow> js_value" where
  "languageCode_of settings = value_or (languageMapping (shortCode_of settings)) ''en-GB''"

text \<open>\<^verbatim>\<open>results.map((result) => result.alternatives[0].transcript)\<close>; a result is the list
  of the transcripts of its alternatives, and reading the first of none throws.\<close>

fun first_transcripts :: "string list list \<Rightarrow> error + string list" where
  "first_transcripts [] = Inr []"
| "first_transcripts ([] # rs) = Inl TypeError"
| "first_transcripts ((a # as) # rs) =
     (case first_transcripts rs of Inl e \<Rightarrow> Inl e | Inr ts \<Rightarrow> Inr (a # ts))"

definition strip_data_prefix :: "platform \<Rightarrow> string \<Rightarrow> string" where
  "strip_data_prefix os fileContent =
     (case os of
        Ios \<Rightarrow> replace_first ''data:audio/vnd.wave;base64,'' [] fileContent
      | Android \<Rightarrow> replace_first ''data:audio/aac;base64,'' [] fileContent
      | OtherOS \<Rightarrow> fileContent)"

definition transcribe_failed :: "speech_request list \<Rightarrow> transcribe_result" where
  "transcribe_failed reqs =
     \<lparr>sent = reqs, alerts = [''Failed to transcribe the audio.''], transcription = None\<rparr>"

text \<open>The request body \<^verbatim>\<open>formData\<close> (its \<^verbatim>\<open>config\<close> and its \<^verbatim>\<open>audio.content\<close>).\<close>

definition formData_of :: "platform \<Rightarrow> settings_row list \<Rightarrow> string \<Rightarrow> speech_request" where
  "formData_of os settings fileContent =
     \<lparr>encoding = (if os = Android then ''WEBM_OPUS'' else ''LINEAR16''),
      sampleRateHertz = (if os = Android then 16000 else 44100),
      languageCode = languageCode_of settings,
      content = strip_data_prefix os fileContent\<rparr>"

text \<open>What follows the \<^verbatim>\<open>fetch\<close> of the request \<open>formData\<close>: the branch on
  \<^verbatim>\<open>response.ok && responseJson.results\<close> and the \<^verbatim>\<open>catch\<close>.\<close>

definition after_fetch ::
  "speech_request \<Rightarrow> string list list option response \<Rightarrow> transcribe_result" where
  "after_fetch formData resp =
     (case resp of
        Rejected \<Rightarrow> transcribe_failed [formData]
      | NotOk \<Rightarrow> transcribe_failed [formData]
      | Body None \<Rightarrow> transcribe_failed [formData]
      | Body (Some results) \<Rightarrow>
          (case first_transcripts results of
             Inl e \<Rightarrow> transcribe_failed [formData]
           | Inr ts \<Rightarrow>
               \<lparr>sent = [formData], alerts = [], transcription = Some (join_lines ts)\<rparr>))"

text \<open>
  \<open>info\<close> is what \<^verbatim>\<open>FileSystem.getInfoAsync(recordingUri)\<close> settles to (the \<^verbatim>\<open>exists\<close>
  flag), \<open>file\<close> what \<^verbatim>\<open>FileSystem.readAsStringAsync(recordingUri, ..)\<close> settles to, and
  \<open>speech\<close> the speech service.
\<close>

definition sendAudioForTranscription ::
  "io \<Rightarrow> store \<Rightarrow> platform \<Rightarrow> bool promise \<Rightarrow> string promise \<Rightarrow>
   (speech_request \<Rightarrow> string list list option response) \<Rightarrow> transcribe_result" where
  "sendAudioForTranscription w st os info file speech =
     (case fetchSettings w st of
        Inl e \<Rightarrow> transcribe_failed []
      | Inr settings \<Rightarrow>
          (case info of
             Inl e \<Rightarrow> transcribe_failed []
           | Inr exists \<Rightarrow>
               if \<not> exists then
                 \<lparr>sent = [], alerts = [''Audio file does not exist.''], transcription = None\<rparr>
               else
                 (case file of
                    Inl e \<Rightarrow> transcribe_failed []
                  | Inr fileContent \<Rightarrow>
                      after_fetch (formData_of os settings fileContent)
                        (speech (formData_of os settings fileContent)))))"

text \<open>The effect of the screen: \<^verbatim>\<open>if (recordingUri) { sendAudioForTranscription(); }\<close>\<close>

definition TranslateScreen ::
  "string option \<Rightarrow> io \<Rightarrow> store \<Rightarrow> platform \<Rightarrow> bool promise \<Rightarrow> string promise \<Rightarrow>
   (speech_request \<Rightarrow> string list list option response) \<Rightarrow> transcribe_result" where
  "TranslateScreen recordingUri w st os info file speech =
     (if truthy recordingUri then sendAudioForTranscription w st os info file speech
      else \<lparr>sent = [], alerts = [], transcription = None\<rparr>)"

section \<open>TranslationForm: translation\<close>

record form_state =
  selectedLanguage :: "string option"
  storedLanguage :: "string option"
  filteredLanguages :: "language_option list"

text \<open>\<^verbatim>\<open>useState(null)\<close>, \<^verbatim>\<open>useState(null)\<close>, \<^verbatim>\<open>useState([])\<close>\<close>

definition initial_form :: form_state where
  "initial_form = \<lparr>selectedLanguage = None, storedLanguage = None, filteredLanguages = []\<rparr>"

definition loadSettings :: "io \<Rightarrow> store \<Rightarrow> form_state \<Rightarrow> form_state" where
  "loadSettings w st fs =
     (case fetchSettings w st of
        Inl e \<Rightarrow> fs
      | Inr settings \<Rightarrow>
          (case settings of
             first # rest \<Rightarrow>
               (let language = or_else (s_language first) ''en'';
                    updatedLanguages = filter (\<lambda>lang. lang_value lang \<noteq> language) languages;
                    fs1 = fs\<lparr>storedLanguage := Some language,
                             filteredLanguages := updatedLanguages\<rparr>
                in case updatedLanguages of
                     [] \<Rightarrow> fs1
                   | l # ls \<Rightarrow> fs1\<lparr>selectedLanguage := Some (lang_value l)\<rparr>)
           | [] \<Rightarrow>
               fs\<lparr>filteredLanguages := languages,
                  selectedLanguage := Some (lang_value (hd languages))\<rparr>))"

text \<open>The picker shows \<open>filteredLanguages\<close>; choosing its \<open>n\<close>-th item calls
  \<^verbatim>\<open>setSelectedLanguage(itemValue)\<close>. There is no item beyond the list.\<close>

definition onValueChange :: "nat \<Rightarrow> form_state \<Rightarrow> form_state" where
  "onValueChange n fs =
     (if n < length (filteredLanguages fs)
      then fs\<lparr>selectedLanguage := Some (lang_value (filteredLanguages fs ! n))\<rparr>
      else fs)"

record translate_request =
  q :: string
  source :: string
  target :: "string option"
  format :: string

record route_params =
  r_transcription :: string
  r_selectedLanguage :: "string option"
  r_translatedText :: string

datatype navigation = NavigateSpeaker route_params | AlertError string

definition requestBody :: "string \<Rightarrow> form_state \<Rightarrow> translate_request" where
  "requestBody transcr fs =
     \<lparr>q = transcr, source = or_else (storedLanguage fs) ''en'',
      target = selectedLanguage fs, format = ''text''\<rparr>"

definition handleTranslate ::
  "(translate_request \<Rightarrow> string response) \<Rightarrow> string \<Rightarrow> form_state \<Rightarrow> navigation" where
  "handleTranslate translate transcr fs =
     (case translate (requestBody transcr fs) of
        Rejected \<Rightarrow> AlertError ''Failed to translate.''
      | NotOk \<Rightarrow> AlertError ''Failed to translate.''
      | Body translatedText \<Rightarrow>
          NavigateSpeaker
            \<lparr>r_transcription = transcr, r_selectedLanguage = selectedLanguage fs,
             r_translatedText = translatedText\<rparr>)"

text \<open>The codes the picker offers as targets.\<close>

definition candidates :: "form_state \<Rightarrow> string set" where
  "candidates fs = set (map lang_value (filteredLanguages fs))"

text \<open>
  The form on the screen: \<^verbatim>\<open>loadSettings\<close> answers at some moment after the mount, the
  user moves the picker, and \<^verbatim>\<open>handleTranslate\<close> reads whatever state there is when the
  button is pressed, also before \<^verbatim>\<open>loadSettings\<close> has answered.
\<close>

datatype form_event = SettingsAnswer io | TargetPicked nat

fun form_step :: "store \<Rightarrow> form_event \<Rightarrow> form_state \<Rightarrow> form_state" where
  "form_step st (SettingsAnswer w) fs = loadSettings w st fs"
| "form_step st (TargetPicked n) fs = onValueChange n fs"

definition TranslationForm :: "store \<Rightarrow> form_event list \<Rightarrow> form_state" where
  "TranslationForm st evs = fold (form_step st) evs initial_form"

section \<open>SettingsForm\<close>

text \<open>
  \<^verbatim>\<open>useState("en")\<close> for \<^verbatim>\<open>selectedLanguage\<close>; \<^verbatim>\<open>loadSettings\<close> sets it from the first
  settings row when there is one; the picker sets it to one of \<^verbatim>\<open>languages\<close>;
  \<^verbatim>\<open>handleSave\<close> writes it with \<^verbatim>\<open>updateSettings\<close>.
\<close>

datatype settings_event = SettingsLoaded io | LanguagePicked nat

fun settings_step :: "store \<Rightarrow> settings_event \<Rightarrow> string \<Rightarrow> string" where
  "settings_step st (SettingsLoaded w) selected =
     (case fetchSettings w st of
        Inl e \<Rightarrow> selected
      | Inr settings \<Rightarrow>
          (case settings of
             first # rest \<Rightarrow> or_else (s_language first) ''en''
           | [] \<Rightarrow> selected))"
| "settings_step st (LanguagePicked n) selected =
     (if n < length languages then lang_value (languages ! n) else selected)"

definition SettingsForm :: "store \<Rightarrow> settings_event list \<Rightarrow> string" where
  "SettingsForm st evs = fold (settings_step st) evs ''en''"

definition handleSave :: "io \<Rightarrow> string \<Rightarrow> store \<Rightarrow> unit promise \<times> store" where
  "handleSave w selected st = updateSettings w selected st"

section \<open>SpeakerScreen: refinement and persistence\<close>

text \<open>
  \<^verbatim>\<open>String.prototype.trim\<close> removes the white space and the line terminators of
  ECMAScript at both ends: U+0009 to U+000D, U+0020, U+00A0, U+1680, U+2000 to U+200A,
  U+2028, U+2029, U+202F, U+205F, U+3000 and U+FEFF. \<open>white_space\<close> lists their UTF-8
  encodings; none of them is the beginning or the end of another one.
\<close>

definition white_space :: "string list" where
  "white_space =
     [[CHR 0x09], [CHR 0x0A], [CHR 0x0B], [CHR 0x0C], [CHR 0x0D], [CHR 0x20],
      [CHR 0xC2, CHR 0xA0],
      [CHR 0xE1, CHR 0x9A, CHR 0x80],
      [CHR 0xE2, CHR 0x80, CHR 0x80], [CHR 0xE2, CHR 0x80, CHR 0x81],
      [CHR 0xE2, CHR 0x80, CHR 0x82], [CHR 0xE2, CHR 0x80, CHR 0x83],
      [CHR 0xE2, CHR 0x80, CHR 0x84], [CHR 0xE2, CHR 0x80, CHR 0x85],
      [CHR 0xE2, CHR 0x80, CHR 0x86], [CHR 0xE2, CHR 0x80, CHR 0x87],
      [CHR 0xE2, CHR 0x80, CHR 0x88], [CHR 0xE2, CHR 0x80, CHR 0x89],
      [CHR 0xE2, CHR 0x80, CHR 0x8A],
      [CHR 0xE2, CHR 0x80, CHR 0xA8], [CHR 0xE2, CHR 0x80, CHR 0xA9],
      [CHR 0xE2, CHR 0x80, CHR 0xAF],
      [CHR 0xE2, CHR 0x81, CHR 0x9F],
      [CHR 0xE3, CHR 0x80, CHR 0x80],
      [CHR 0xEF, CHR 0xBB, CHR 0xBF]]"

text \<open>Removing from the front of \<open>s\<close>, as long as there is one, a member of \<open>ws\<close>.\<close>

function strip :: "string list \<Rightarrow> string \<Rightarrow> string" where
  "strip ws s =
     (case find (\<lambda>w. w \<noteq> [] \<and> take (length w) s = w) ws of
        None \<Rightarrow> s
      | Some w \<Rightarrow> strip ws (drop (length w) s))"
  by pat_completeness auto
termination
proof (relation "measure (\<lambda>(ws, s). length s)")
  show "wf (measure (\<lambda>(ws, s). length s))" by simp
next
  fix ws :: "string list" and s w :: string
  assume "find (\<lambda>w. w \<noteq> [] \<and> take (length w) s = w) ws = Some w"
  then have "w \<noteq> []" and "take (length w) s = w"
    by (auto simp: find_Some_iff)
  then have "s \<noteq> []" by auto
  with \<open>w \<noteq> []\<close> show "((ws, drop (length w) s), (ws, s)) \<in> measure (\<lambda>(ws, s). length s)"
    by simp
qed

definition trim :: "string \<Rightarrow> string" where
  "trim s = rev (strip (map rev white_space) (rev (strip white_space s)))"

definition refine_prompt :: "string \<Rightarrow> string" where
  "refine_prompt text = ''Refine this translation for grammar and context: '' @ text"

text \<open>
  What follows the \<^verbatim>\<open>fetch\<close> in \<^verbatim>\<open>refineTextWithOpenAI\<close>. The body read from the service
  is \<^verbatim>\<open>data.choices[0]?.text\<close>, a nullable string (a body without \<^verbatim>\<open>choices\<close>, or with a text
  that is not a string, makes the reading throw and counts as \<open>Rejected\<close>). The result is
  the promise of the function and the \<^verbatim>\<open>refinedText\<close> state afterwards. The \<^verbatim>\<open>catch\<close> block
  calls \<^verbatim>\<open>Alert.alert\<close>, and the module does not import \<^verbatim>\<open>Alert\<close>: the block throws in its
  turn and the promise is rejected; the state is left as it was.
\<close>

definition after_refine :: "string option response \<Rightarrow> string \<Rightarrow> unit promise \<times> string" where
  "after_refine resp refinedText =
     (case resp of
        Rejected \<Rightarrow> (Inl ReferenceError, refinedText)
      | NotOk \<Rightarrow> (Inl ReferenceError, refinedText)
      | Body choice_text \<Rightarrow>
          (let refined = map_option trim choice_text
           in if truthy refined then (Inr (), the refined) else (Inr (), refinedText)))"

definition refineTextWithOpenAI ::
  "(string \<Rightarrow> string option response) \<Rightarrow> string \<Rightarrow> string \<Rightarrow> unit promise \<times> string" where
  "refineTextWithOpenAI openai text refinedText =
     after_refine (openai (refine_prompt text)) refinedText"

text \<open>
  \<^verbatim>\<open>checkTranslation\<close> with its two calls settling one right after the other.
  \<^verbatim>\<open>addTranslation\<close> is called without \<^verbatim>\<open>await\<close>: its promise is dropped, its write
  happens.
\<close>

definition checkTranslation ::
  "io \<Rightarrow> io \<Rightarrow> route_params \<Rightarrow> string \<Rightarrow> store \<Rightarrow> unit promise \<times> store" where
  "checkTranslation w_lookup w_insert p refinedText st =
     (case checkIfTranslationExists w_lookup (r_transcription p) (r_selectedLanguage p) st of
        Inl e \<Rightarrow> (Inl e, st)
      | Inr translation \<Rightarrow>
          (case translation of
             None \<Rightarrow>
               (Inr (),
                snd (addTranslation w_insert (r_transcription p) (r_selectedLanguage p)
                       refinedText st))
           | Some row \<Rightarrow> (Inr (), st)))"

subsection \<open>The screen as a system of pending calls\<close>

text \<open>
  \<^verbatim>\<open>useEffect(() => { .. refineTextWithOpenAI(translatedText); checkTranslation(); },
  [transcription, selectedLanguage, translatedText, refinedText])\<close>: a run of the effect
  starts both functions and awaits neither, and the effect runs again whenever
  \<^verbatim>\<open>setRefinedText\<close> has changed \<^verbatim>\<open>refinedText\<close>. So the calls of several runs are pending
  together. For each run of the effect the screen keeps the \<^verbatim>\<open>refinedText\<close> its closure
  holds, whether its refinement call has settled, and where its \<^verbatim>\<open>checkTranslation\<close>
  stands: waiting for the lookup, waiting for the insert it has issued, or over.
\<close>

datatype check_stage = Looking | Inserting | Finished

record effect_run =
  closure_text :: string
  answered :: bool
  stage :: check_stage

record speaker_screen =
  refinedText :: string
  effect_runs :: "effect_run list"
  screen_store :: store

definition new_run :: "string \<Rightarrow> effect_run" where
  "new_run r = \<lparr>closure_text = r, answered = False, stage = Looking\<rparr>"

text \<open>\<^verbatim>\<open>useState(translatedText)\<close>, and the first run of the effect.\<close>

definition mount :: "route_params \<Rightarrow> store \<Rightarrow> speaker_screen" where
  "mount p st =
     \<lparr>refinedText = r_translatedText p, effect_runs = [new_run (r_translatedText p)],
      screen_store = st\<rparr>"

text \<open>
  An event is the settling of one pending call of the run with the given number: the
  refinement call with its response, the lookup, or the insert. The statement of a lookup
  or an insert reads or writes the store at that moment. An event for a call that is not
  pending changes nothing.
\<close>

datatype event =
    RefinementAnswers nat "string option response"
  | LookupReturns nat io
  | InsertReturns nat io

definition mark_answered :: "nat \<Rightarrow> effect_run list \<Rightarrow> effect_run list" where
  "mark_answered k runs = runs[k := (runs ! k)\<lparr>answered := True\<rparr>]"

definition mark_stage :: "nat \<Rightarrow> check_stage \<Rightarrow> effect_run list \<Rightarrow> effect_run list" where
  "mark_stage k s runs = runs[k := (runs ! k)\<lparr>stage := s\<rparr>]"

fun step :: "route_params \<Rightarrow> event \<Rightarrow> speaker_screen \<Rightarrow> speaker_screen" where
  "step p (RefinementAnswers k resp) scr =
     (if k < length (effect_runs scr) \<and> \<not> answered (effect_runs scr ! k) then
        (if snd (after_refine resp (refinedText scr)) = refinedText scr
         then scr\<lparr>effect_runs := mark_answered k (effect_runs scr)\<rparr>
         else scr\<lparr>refinedText := snd (after_refine resp (refinedText scr)),
                  effect_runs :=
                    mark_answered k (effect_runs scr) @
                      [new_run (snd (after_refine resp (refinedText scr)))]\<rparr>)
      else scr)"
| "step p (LookupReturns k w) scr =
     (if k < length (effect_runs scr) \<and> stage (effect_runs scr ! k) = Looking then
        (case checkIfTranslationExists w (r_transcription p) (r_selectedLanguage p)
                (screen_store scr) of
           Inl e \<Rightarrow> scr\<lparr>effect_runs := mark_stage k Finished (effect_runs scr)\<rparr>
         | Inr translation \<Rightarrow>
             (case translation of
                None \<Rightarrow> scr\<lparr>effect_runs := mark_stage k Inserting (effect_runs scr)\<rparr>
              | Some row \<Rightarrow> scr\<lparr>effect_runs := mark_stage k Finished (effect_runs scr)\<rparr>))
      else scr)"
| "step p (InsertReturns k w) scr =
     (if k < length (effect_runs scr) \<and> stage (effect_runs scr ! k) = Inserting then
        scr\<lparr>effect_runs := mark_stage k Finished (effect_runs scr),
            screen_store :=
              snd (addTranslation w (r_transcription p) (r_selectedLanguage p)
                     (closure_text (effect_runs scr ! k)) (screen_store scr))\<rparr>
      else scr)"

definition run_events :: "route_params \<Rightarrow> event list \<Rightarrow> speaker_screen \<Rightarrow> speaker_screen" where
  "run_events p evs scr = fold (step p) evs scr"

text \<open>A visit of the screen with the route parameters \<open>p\<close>, as far as its events go, and
  visits one after the other.\<close>

definition visit :: "route_params \<Rightarrow> event list \<Rightarrow> store \<Rightarrow> store" where
  "visit p evs st = screen_store (run_events p evs (mount p st))"

fun visits :: "(route_params \<times> event list) list \<Rightarrow> store \<Rightarrow> store" where
  "visits [] st = st"
| "visits ((p, evs) # vs) st = visits vs (visit p evs st)"

section \<open>The application\<close>

text \<open>
  What the application does to the store: a start of the process (\<^verbatim>\<open>App.initialise\<close>, with
  \<^verbatim>\<open>db\<close> undefined again), a save on the settings screen, a visit of the speaker screen,
  and a delete on the history screen.
\<close>

datatype action =
    Launch io io io io io
  | SaveLanguage "settings_event list" io
  | Speak route_params "event list"
  | DeleteItem io int

fun act :: "action \<Rightarrow> store \<Rightarrow> store" where
  "act (Launch w_open w1 w2 w3 w4) st = initialise w_open w1 w2 w3 w4 (st\<lparr>db_defined := False\<rparr>)"
| "act (SaveLanguage evs w) st = snd (handleSave w (SettingsForm st evs) st)"
| "act (Speak p evs) st = visit p evs st"
| "act (DeleteItem w i) st = snd (deleteTranslation w i st)"

definition app :: "action list \<Rightarrow> store" where
  "app acts = fold act acts initial_store"

section \<open>Notions used in the statements\<close>

text \<open>The soft key of a translation record, and the stores in which no two records share
  it.\<close>

definition pair_of :: "translation_row \<Rightarrow> string \<times> string" where
  "pair_of r = (t_original_text r, t_language r)"

definition no_duplicates :: "store \<Rightarrow> bool" where
  "no_duplicates st = distinct (map pair_of (stored_translations st))"

definition count_pair :: "string \<times> string \<Rightarrow> store \<Rightarrow> nat" where
  "count_pair k st = length (filter (\<lambda>row. pair_of row = k) (stored_translations st))"

text \<open>The store holds a record for the pair of the route parameters.\<close>

definition key_stored :: "route_params \<Rightarrow> store \<Rightarrow> bool" where
  "key_stored p st =
     list_ex (\<lambda>row. t_original_text row = r_transcription p \<and>
                    Some (t_language row) = r_selectedLanguage p)
       (stored_translations st)"

text \<open>Events whose lookup goes through, and events whose lookup or insert goes through.\<close>

fun lookup_succeeds :: "event \<Rightarrow> bool" where
  "lookup_succeeds (LookupReturns k w) = (w = Ok)"
| "lookup_succeeds ev = True"

fun statement_succeeds :: "event \<Rightarrow> bool" where
  "statement_succeeds (LookupReturns k w) = (w = Ok)"
| "statement_succeeds (InsertReturns k w) = (w = Ok)"
| "statement_succeeds ev = True"

text \<open>
  The checks of the store are over: no run of the effect waits for its lookup or its
  insert. A sequence of events is in turn when the effect runs again only then: a
  refinement answer that changes \<^verbatim>\<open>refinedText\<close> arrives when the checks are over.
\<close>

definition checks_over :: "speaker_screen \<Rightarrow> bool" where
  "checks_over scr = list_all (\<lambda>r. stage r = Finished) (effect_runs scr)"

fun turn_ok :: "event \<Rightarrow> speaker_screen \<Rightarrow> bool" where
  "turn_ok (RefinementAnswers k resp) scr =
     (checks_over scr \<or> snd (after_refine resp (refinedText scr)) = refinedText scr)"
| "turn_ok ev scr = True"

fun in_turn :: "route_params \<Rightarrow> event list \<Rightarrow> speaker_screen \<Rightarrow> bool" where
  "in_turn p [] scr = True"
| "in_turn p (ev # evs) scr = (turn_ok ev scr \<and> in_turn p evs (step p ev scr))"

text \<open>Visits one after the other, each in turn, with lookups that go through, and with its
  checks over when the next one starts.\<close>

fun visits_in_turn :: "(route_params \<times> event list) list \<Rightarrow> store \<Rightarrow> bool" where
  "visits_in_turn [] st = True"
| "visits_in_turn ((p, evs) # vs) st =
     (in_turn p evs (mount p st) \<and> list_all lookup_succeeds evs \<and>
      checks_over (run_events p evs (mount p st)) \<and> visits_in_turn vs (visit p evs st))"

text \<open>The record a visit with the route parameters \<open>p\<close> writes when it stores the text
  \<open>x\<close> under the identity \<open>i\<close>.\<close>

definition raw_row :: "int \<Rightarrow> route_params \<Rightarrow> string \<Rightarrow> string \<Rightarrow> translation_row" where
  "raw_row i p l x =
     \<lparr>t_id = i, t_original_text = r_transcription p, t_language = l, t_translated_text = x\<rparr>"

text \<open>The same events with other outcomes of the lookups and the inserts.\<close>

fun with_store_outcome :: "io \<Rightarrow> io \<Rightarrow> event \<Rightarrow> event" where
  "with_store_outcome a b (LookupReturns k w) = LookupReturns k a"
| "with_store_outcome a b (InsertReturns k w) = InsertReturns k b"
| "with_store_outcome a b (RefinementAnswers k resp) = RefinementAnswers k resp"

text \<open>A refinement that fails or gives nothing: the call or the response is rejected, or the
  text of the first choice is missing or empty once trimmed. Events without a refinement
  of another kind.\<close>

fun refinement_fails_or_empty :: "string option response \<Rightarrow> bool" where
  "refinement_fails_or_empty Rejected = True"
| "refinement_fails_or_empty NotOk = True"
| "refinement_fails_or_empty (Body None) = True"
| "refinement_fails_or_empty (Body (Some s)) = (trim s = [])"

fun no_refinement :: "event \<Rightarrow> bool" where
  "no_refinement (RefinementAnswers k resp) = refinement_fails_or_empty resp"
| "no_refinement ev = True"

text \<open>The orders in which the three calls of the first run of the effect can settle.\<close>

definition first_run_schedules :: "string option response \<Rightarrow> io \<Rightarrow> io \<Rightarrow> event list list" where
  "first_run_schedules resp wl wi =
     [[RefinementAnswers 0 resp, LookupReturns 0 wl, InsertReturns 0 wi],
      [LookupReturns 0 wl, RefinementAnswers 0 resp, InsertReturns 0 wi],
      [LookupReturns 0 wl, InsertReturns 0 wi, RefinementAnswers 0 resp]]"

text \<open>The codes of the language pickers; settings without a language; the locales the
  transcription can ask for.\<close>

definition supported :: "string \<Rightarrow> bool" where
  "supported c = (c \<in> set (map lang_value languages))"

fun unset :: "settings_row list \<Rightarrow> bool" where
  "unset [] = True"
| "unset (first # rest) = (\<not> truthy (s_language first))"

definition locale_codes :: "string list" where
  "locale_codes = ''en-GB'' # map snd languageMapping_entries"

text \<open>No recording to send: no reference, no file behind it, or a file-system call that
  throws.\<close>

fun audio_unavailable :: "string option \<Rightarrow> bool promise \<Rightarrow> string promise \<Rightarrow> bool" where
  "audio_unavailable recordingUri (Inl e) file = True"
| "audio_unavailable recordingUri (Inr exists) (Inl e) = True"
| "audio_unavailable recordingUri (Inr exists) (Inr fileContent) =
     (\<not> truthy recordingUri \<or> \<not> exists)"

section \<open>Invariants\<close>

text \<open>
  The views of the screen and the invariants of its events that the proofs below
  maintain.
\<close>

text \<open>The stages of the runs of the effect, the texts of their closures, and what the
  text on the screen depends on.\<close>

definition stages :: "speaker_screen \<Rightarrow> check_stage list" where
  "stages scr = map stage (effect_runs scr)"

definition closures :: "speaker_screen \<Rightarrow> string list" where
  "closures scr = map closure_text (effect_runs scr)"

definition text_view :: "speaker_screen \<Rightarrow> string \<times> bool list" where
  "text_view scr = (refinedText scr, map answered (effect_runs scr))"

text \<open>Only the last run of the effect can be waiting, and a run that waits for its insert
  has not found the pair.\<close>

definition last_only :: "check_stage list \<Rightarrow> bool" where
  "last_only ss = (\<forall>k < length ss. ss ! k \<noteq> Finished \<longrightarrow> Suc k = length ss)"

definition dedup_inv :: "route_params \<Rightarrow> speaker_screen \<Rightarrow> bool" where
  "dedup_inv p scr =
     (no_duplicates (screen_store scr) \<and> last_only (stages scr) \<and>
      (Inserting \<in> set (stages scr) \<longrightarrow>
         \<not> key_stored p (screen_store scr) \<or> \<not> db_defined (screen_store scr)))"

text \<open>An insert for the route parameters can go through; the store has got nothing or one
  record with the raw translation.\<close>

definition writable :: "route_params \<Rightarrow> store \<Rightarrow> bool" where
  "writable p st =
     (db_defined st \<and> translations_table (disk st) \<noteq> None \<and> r_selectedLanguage p \<noteq> None)"


text \<open>After a check that is over the pair is stored; once the pair is stored no run waits
  for an insert.\<close>

definition finished_inv :: "route_params \<Rightarrow> speaker_screen \<Rightarrow> bool" where
  "finished_inv p scr =
     (writable p (screen_store scr) \<and>
      (Finished \<in> set (stages scr) \<longrightarrow> key_stored p (screen_store scr)))"

definition settled :: "route_params \<Rightarrow> speaker_screen \<Rightarrow> bool" where
  "settled p scr =
     (db_defined (screen_store scr) \<and> translations_table (disk (screen_store scr)) \<noteq> None \<and>
      key_stored p (screen_store scr) \<and> Inserting \<notin> set (stages scr))"



text \<open>The states of a visit without a refinement.\<close>

definition quiet_inv :: "route_params \<Rightarrow> store \<Rightarrow> speaker_screen \<Rightarrow> bool" where
  "quiet_inv p st scr =
     (refinedText scr = r_translatedText p \<and> closures scr = [r_translatedText p] \<and>
      (stages scr = [Looking] \<and> screen_store scr = st \<or>
       stages scr = [Inserting] \<and> screen_store scr = st \<and>
         (\<exists>wl. checkIfTranslationExists wl (r_transcription p) (r_selectedLanguage p) st =
            Inr None) \<or>
       stages scr = [Finished] \<and>
         (\<exists>wl wi. screen_store scr = snd (checkTranslation wl wi p (r_translatedText p) st))))"

text \<open>Every settings row holds one of the codes of the pickers; so does the \<^verbatim>\<open>storedLanguage\<close>
  of the translation form, once it is set.\<close>

definition settings_valid :: "store \<Rightarrow> bool" where
  "settings_valid st =
     (case settings_table (disk st) of
        None \<Rightarrow> True
      | Some rows \<Rightarrow>
          list_all (\<lambda>row. case s_language row of None \<Rightarrow> False | Some c \<Rightarrow> supported c) rows)"

definition stored_valid :: "form_state \<Rightarrow> bool" where
  "stored_valid fs = (case storedLanguage fs of None \<Rightarrow> True | Some c \<Rightarrow> supported c)"

section \<open>Example data\<close>

definition two_rows :: "translation_row list" where
  "two_rows =
     [\<lparr>t_id = 1, t_original_text = ''Bonjour'', t_language = ''en'',
       t_translated_text = ''Hello''\<rparr>,
      \<lparr>t_id = 2, t_original_text = ''Merci'', t_language = ''en'',
       t_translated_text = ''Thanks''\<rparr>]"

definition two_row_store :: store where
  "two_row_store =
     \<lparr>db_defined = True,
      disk = \<lparr>settings_table = Some [\<lparr>s_id = 1, s_language = Some ''fr''\<rparr>],
              translations_table = Some two_rows, sqlite_sequence = 2\<rparr>\<rparr>"

text \<open>The store after a first start of the application in which every call went through.\<close>

definition fresh_store :: store where
  "fresh_store = initialise Ok Ok Ok Ok Ok initial_store"

definition bonjour :: route_params where
  "bonjour =
     \<lparr>r_transcription = ''Bonjour'', r_selectedLanguage = Some ''en'', r_translatedText = ''Hello''\<rparr>"

text \<open>A refinement that answers with a polished text, and one that answers with a
  no-break space and a line separator.\<close>

definition polished :: "string option response" where
  "polished = Body (Some ''Hello there'')"

definition blank_reply :: "string option response" where
  "blank_reply = Body (Some [CHR 0xC2, CHR 0xA0, CHR 0x20, CHR 0xE2, CHR 0x80, CHR 0xA8])"

text \<open>A translation service that gives the text back as it came.\<close>

definition echo_service :: "translate_request \<Rightarrow> string response" where
  "echo_service req = Body (q req)"

definition speech_unavailable :: "speech_request \<Rightarrow> string list list option response" where
  "speech_unavailable req = Rejected"

text \<open>
  Three courses of a visit in which the refinement answers with the polished text. In
  \<open>race\<close> it answers first: the effect is run again and the lookups of both runs return
  before either insert. In \<open>one_by_one\<close> the first run has finished its check before the
  refinement answers. In \<open>retry_after_fault\<close> it has too, and its insert has failed.
\<close>

definition race :: "event list" where
  "race =
     [RefinementAnswers 0 polished, LookupReturns 0 Ok, LookupReturns 1 Ok,
      InsertReturns 0 Ok, InsertReturns 1 Ok, RefinementAnswers 1 polished]"

definition one_by_one :: "event list" where
  "one_by_one =
     [LookupReturns 0 Ok, InsertReturns 0 Ok, RefinementAnswers 0 polished,
      LookupReturns 1 Ok, RefinementAnswers 1 polished]"

definition retry_after_fault :: "event list" where
  "retry_after_fault =
     [LookupReturns 0 Ok, InsertReturns 0 Fault, RefinementAnswers 0 polished,
      LookupReturns 1 Ok, InsertReturns 1 Ok, RefinementAnswers 1 polished]"

text \<open>A first start, then French chosen and saved on the settings screen.\<close>

definition french_saved :: "action list" where
  "french_saved =
     [Launch Ok Ok Ok Ok Ok, SaveLanguage [SettingsLoaded Ok, LanguagePicked 1] Ok]"

section \<open>Properties of the store\<close>

lemma query_failure:
  "\<not> db_defined st \<or> w = Fault \<Longrightarrow> \<exists>e. query w stmt st = Inl e"
  by (auto simp: query_def)

lemma run_failure:
  "\<not> db_defined st \<or> w = Fault \<Longrightarrow> \<exists>e. runAsync w stmt st = Inl e"
  by (auto simp: runAsync_def query_def)

lemma store_disk_same [simp]: "st\<lparr>disk := disk st\<rparr> = st"
  by simp

lemma filter_other_ids:
  "i \<notin> set (map t_id rows) \<Longrightarrow> filter (\<lambda>r. t_id r \<noteq> i) rows = rows"
  by (induction rows) auto

text \<open>The identities of the rows stay distinct under an insert, as the primary key
  demands: the new identity is above all the others.\<close>

lemma fold_max_upper: "x \<in> set xs \<Longrightarrow> x \<le> fold max xs (a::int)"
proof (induction xs arbitrary: a)
  case Nil
  then show ?case by simp
next
  case (Cons y ys)
  have mono: "b \<le> fold max ys b" for b :: int
    by (induction ys arbitrary: b) (auto intro: order_trans [OF max.cobounded2])
  from Cons show ?case
    by (auto intro: order_trans [OF max.cobounded1 mono])
qed

lemma insert_translation_distinct_ids:
  assumes "translations_table d = Some rows" and "distinct (map t_id rows)"
    and "insert_translation originalText (Some l) translatedText d = Inr d'"
  shows "\<exists>rows'. translations_table d' = Some rows' \<and> distinct (map t_id rows')"
proof -
  have "next_rowid d rows \<notin> set (map t_id rows)"
  proof
    assume "next_rowid d rows \<in> set (map t_id rows)"
    from fold_max_upper [OF this, of "sqlite_sequence d"] show False
      by (simp add: next_rowid_def)
  qed
  with assms show ?thesis
    by (auto simp: insert_translation_def)
qed

lemma deleteTranslation_absent:
  assumes "i \<notin> set (map t_id (stored_translations st))"
  shows "deleteTranslation w i st = (Inr (), st)"
proof (cases "translations_table (disk st)")
  case None
  then show ?thesis
    by (simp add: deleteTranslation_def runAsync_def query_def delete_translation_def split: io.split)
next
  case (Some rows)
  with assms have "filter (\<lambda>r. t_id r \<noteq> i) rows = rows"
    by (simp add: stored_translations_def filter_other_ids)
  moreover from Some have "(disk st)\<lparr>translations_table := Some rows\<rparr> = disk st"
    by simp
  ultimately show ?thesis using Some
    by (simp add: deleteTranslation_def runAsync_def query_def delete_translation_def split: io.split)
qed

lemma deleteTranslation_present:
  assumes "db_defined st" and "translations_table (disk st) = Some rows"
    and "distinct (map t_id rows)" and "i \<in> set (map t_id rows)"
  shows "\<exists>pre r post. rows = pre @ r # post \<and> t_id r = i \<and>
           deleteTranslation Ok i st =
             (Inr (), st\<lparr>disk := (disk st)\<lparr>translations_table := Some (pre @ post)\<rparr>\<rparr>)"
proof -
  from assms(4) obtain r where r: "r \<in> set rows" "t_id r = i" by auto
  then obtain pre post where split: "rows = pre @ r # post"
    by (auto dest: split_list)
  with assms(3) r have "i \<notin> set (map t_id pre)" "i \<notin> set (map t_id post)"
    by auto
  then have "filter (\<lambda>r. t_id r \<noteq> i) rows = pre @ post"
    using split r by (simp add: filter_other_ids)
  then have "deleteTranslation Ok i st =
      (Inr (), st\<lparr>disk := (disk st)\<lparr>translations_table := Some (pre @ post)\<rparr>\<rparr>)"
    using assms(1,2)
    by (simp add: deleteTranslation_def runAsync_def query_def delete_translation_def)
  with split r show ?thesis by blast
qed

text \<open>
  \<^bold>\<open>C9.\<close> \<^verbatim>\<open>deleteTranslation(id)\<close> never rejects. When no row of the translations table has
  the identity \<open>i\<close> (also on an empty table, a missing table or an undefined handle), the
  store is left exactly as it was, whatever the statement does. When a row has it, the
  identities being distinct as the primary key makes them, the statement removes that one
  row and keeps every other row, in order.
\<close>

theorem deleteTranslation_removes_exactly_one:
  "fst (deleteTranslation w i st) = Inr () \<and>
   (i \<notin> set (map t_id (stored_translations st)) \<longrightarrow>
      deleteTranslation w i st = (Inr (), st)) \<and>
   (db_defined st \<and> translations_table (disk st) = Some rows \<and> distinct (map t_id rows) \<and>
    i \<in> set (map t_id rows) \<longrightarrow>
      (\<exists>pre r post. rows = pre @ r # post \<and> t_id r = i \<and>
         deleteTranslation Ok i st =
           (Inr (), st\<lparr>disk := (disk st)\<lparr>translations_table := Some (pre @ post)\<rparr>\<rparr>)))"
proof -
  have "fst (deleteTranslation w i st) = Inr ()"
    by (simp add: deleteTranslation_def split: sum.split)
  then show ?thesis
    using deleteTranslation_absent [of i st w] deleteTranslation_present [of st rows i]
    by blast
qed

theorem deleteTranslation_removes_exactly_one_witness:
  "deleteTranslation Ok 999 initial_store = (Inr (), initial_store) \<and>
   (\<exists>pre r post. two_rows = pre @ r # post \<and> t_id r = 2 \<and>
      deleteTranslation Ok 2 two_row_store =
        (Inr (),
         two_row_store\<lparr>disk := (disk two_row_store)\<lparr>translations_table := Some (pre @ post)\<rparr>\<rparr>))"
proof -
  have absent: "999 \<notin> set (map t_id (stored_translations initial_store))"
    by (simp add: initial_store_def empty_disk_def stored_translations_def)
  have present:
    "db_defined two_row_store \<and> translations_table (disk two_row_store) = Some two_rows \<and>
       distinct (map t_id two_rows) \<and> 2 \<in> set (map t_id two_rows)"
    by (simp add: two_row_store_def two_rows_def)
  from absent deleteTranslation_removes_exactly_one [of Ok 999 initial_store "[]"]
  have "deleteTranslation Ok 999 initial_store = (Inr (), initial_store)"
    by blast
  moreover from present deleteTranslation_removes_exactly_one [of Ok 2 two_row_store two_rows]
  have "\<exists>pre r post. two_rows = pre @ r # post \<and> t_id r = 2 \<and>
      deleteTranslation Ok 2 two_row_store =
        (Inr (),
         two_row_store\<lparr>disk := (disk two_row_store)\<lparr>translations_table := Some (pre @ post)\<rparr>\<rparr>)"
    by blast
  ultimately show ?thesis by blast
qed

text \<open>
  \<^bold>\<open>C5.\<close> No function of the database service rejects its promise, whatever the handle,
  the tables and the outcome of the statement. When the call on the handle throws,
  \<^verbatim>\<open>fetchTranslations\<close> and \<^verbatim>\<open>fetchSettings\<close> resolve to the empty array,
  \<^verbatim>\<open>checkIfTranslationExists\<close> resolves to \<^verbatim>\<open>null\<close>, and \<^verbatim>\<open>addTranslation\<close>,
  \<^verbatim>\<open>updateSettings\<close> and \<^verbatim>\<open>deleteTranslation\<close> resolve with the store untouched.
\<close>

theorem store_operations_never_throw:
  "(\<exists>rows. fetchTranslations w st = Inr rows) \<and>
   (\<exists>rows. fetchSettings w st = Inr rows) \<and>
   (\<exists>r. checkIfTranslationExists w t l st = Inr r) \<and>
   fst (addTranslation w t l x st) = Inr () \<and>
   fst (updateSettings w l' st) = Inr () \<and>
   fst (deleteTranslation w i st) = Inr () \<and>
   fst (setupDatabase w0 w w' st) = Inr () \<and>
   fst (loadInitialData w w' st) = Inr () \<and>
   (query w select_all_translations st = Inl e \<longrightarrow> fetchTranslations w st = Inr []) \<and>
   (query w select_all_settings st = Inl e \<longrightarrow> fetchSettings w st = Inr []) \<and>
   (query w (select_translation t l) st = Inl e \<longrightarrow>
      checkIfTranslationExists w t l st = Inr None) \<and>
   (runAsync w (insert_translation t l x) st = Inl e \<longrightarrow>
      addTranslation w t l x st = (Inr (), st)) \<and>
   (runAsync w (update_settings_language l') st = Inl e \<longrightarrow>
      updateSettings w l' st = (Inr (), st)) \<and>
   (runAsync w (delete_translation i) st = Inl e \<longrightarrow>
      deleteTranslation w i st = (Inr (), st))"
  by (simp add: fetchTranslations_def fetchSettings_def checkIfTranslationExists_def
      addTranslation_def updateSettings_def deleteTranslation_def setupDatabase_def
      loadInitialData_def split: sum.split io.split)

theorem store_operations_never_throw_witness:
  "query Fault select_all_translations two_row_store = Inl SQLiteError \<and>
   fetchTranslations Fault two_row_store = Inr [] \<and>
   fetchSettings Fault two_row_store = Inr [] \<and>
   checkIfTranslationExists Fault ''Bonjour'' (Some ''en'') two_row_store = Inr None \<and>
   addTranslation Fault ''Bonjour'' (Some ''en'') ''Hello'' two_row_store =
     (Inr (), two_row_store) \<and>
   updateSettings Fault ''fr'' two_row_store = (Inr (), two_row_store) \<and>
   deleteTranslation Fault 1 two_row_store = (Inr (), two_row_store)"
  using store_operations_never_throw
    [of Fault two_row_store "''Bonjour''" "Some ''en''" "''Hello''" "''fr''" 1 Ok Ok SQLiteError]
  by (simp add: query_def runAsync_def two_row_store_def)

text \<open>
  \<^bold>\<open>C7.\<close> On a store without settings rows (no database file yet, or an empty settings
  table), after \<^verbatim>\<open>setupDatabase\<close> and \<^verbatim>\<open>loadInitialData\<close> have gone through,
  \<^verbatim>\<open>fetchSettings\<close> returns the one row \<^verbatim>\<open>{ id: 1, language: "en" }\<close>.
\<close>

theorem fresh_store_default_settings:
  "settings_table (disk st) = None \<or> settings_table (disk st) = Some [] \<Longrightarrow>
   fetchSettings Ok (initialise Ok Ok Ok Ok Ok st) = Inr [\<lparr>s_id = 1, s_language = Some ''en''\<rparr>]"
  by (auto simp: initialise_def setupDatabase_def loadInitialData_def fetchSettings_def
      runAsync_def query_def create_settings_table_def create_translations_table_def
      select_count_settings_def insert_default_settings_def select_all_settings_def
      split: option.split)

theorem fresh_store_default_settings_witness:
  "settings_table (disk initial_store) = None \<and>
   fetchSettings Ok (initialise Ok Ok Ok Ok Ok initial_store) =
     Inr [\<lparr>s_id = 1, s_language = Some ''en''\<rparr>]"
  using fresh_store_default_settings [of initial_store]
  by (simp add: initial_store_def empty_disk_def)

section \<open>Evaluation\<close>

lemmas store_eval =
  fresh_store_def initialise_def initial_store_def empty_disk_def setupDatabase_def
  loadInitialData_def runAsync_def query_def create_settings_table_def
  create_translations_table_def select_count_settings_def insert_default_settings_def
  two_row_store_def two_rows_def

lemmas check_eval =
  checkTranslation_def checkIfTranslationExists_def addTranslation_def select_translation_def
  insert_translation_def next_rowid_def stored_translations_def

lemmas screen_eval =
  step.simps visit_def run_events_def mount_def new_run_def mark_answered_def mark_stage_def
  after_refine_def checkIfTranslationExists_def addTranslation_def select_translation_def
  insert_translation_def next_rowid_def stored_translations_def

lemmas form_eval =
  loadSettings_def requestBody_def candidates_def initial_form_def fetchSettings_def
  select_all_settings_def languages_def

text \<open>\<^verbatim>\<open>trim\<close> on the texts of the examples.\<close>

lemma trim_polished: "trim ''Hello there'' = ''Hello there''"
  by (simp add: trim_def white_space_def)

lemma trim_blank: "trim [CHR 0xC2, CHR 0xA0, CHR 0x20, CHR 0xE2, CHR 0x80, CHR 0xA8] = []"
  by (simp add: trim_def white_space_def)

section \<open>Properties of the speaker screen\<close>

subsection \<open>One check of the store\<close>

lemma checkTranslation_resolves: "fst (checkTranslation wl wi p r st) = Inr ()"
  by (simp add: checkTranslation_def checkIfTranslationExists_def split: sum.split option.split)

lemma checkTranslation_cases:
  "snd (checkTranslation wl wi p r st) = st \<or>
   (\<exists>l rows. db_defined st \<and> wi = Ok \<and> r_selectedLanguage p = Some l \<and>
      translations_table (disk st) = Some rows \<and>
      (wl = Fault \<or> (\<forall>row \<in> set rows. pair_of row \<noteq> (r_transcription p, l))) \<and>
      snd (checkTranslation wl wi p r st) =
        st\<lparr>disk := (disk st)\<lparr>translations_table :=
                Some (rows @ [raw_row (next_rowid (disk st) rows) p l r]),
              sqlite_sequence := next_rowid (disk st) rows\<rparr>\<rparr>)"
  by (cases wl; cases wi)
    (auto simp: checkTranslation_def checkIfTranslationExists_def addTranslation_def
      query_def runAsync_def select_translation_def insert_translation_def raw_row_def
      pair_of_def find_None_iff
      split: option.split sum.split)

lemma checkTranslation_stored:
  "stored_translations (snd (checkTranslation wl wi p r st)) = stored_translations st \<or>
   (\<exists>i l. r_selectedLanguage p = Some l \<and>
      stored_translations (snd (checkTranslation wl wi p r st)) =
        stored_translations st @ [raw_row i p l r])"
  using checkTranslation_cases [of wl wi p r st]
  by (auto simp: stored_translations_def)

lemma checkTranslation_no_duplicates:
  assumes "wl = Ok" and "no_duplicates st"
  shows "no_duplicates (snd (checkTranslation wl wi p r st))"
proof -
  from checkTranslation_cases [of wl wi p r st]
  consider "snd (checkTranslation wl wi p r st) = st"
    | l rows where "r_selectedLanguage p = Some l" "translations_table (disk st) = Some rows"
        "wl = Fault \<or> (\<forall>row \<in> set rows. pair_of row \<noteq> (r_transcription p, l))"
        "stored_translations (snd (checkTranslation wl wi p r st)) =
           rows @ [raw_row (next_rowid (disk st) rows) p l r]"
    by (auto simp: stored_translations_def)
  then show ?thesis
  proof cases
    case 1
    with assms(2) show ?thesis by simp
  next
    case 2
    from 2(3) assms(1) have "(r_transcription p, l) \<notin> set (map pair_of rows)"
      by auto
    moreover from assms(2) 2(2) have "distinct (map pair_of rows)"
      by (simp add: no_duplicates_def stored_translations_def)
    ultimately show ?thesis
      using 2(4) by (simp add: no_duplicates_def raw_row_def pair_of_def)
  qed
qed

lemma checkTranslation_shape:
  "db_defined (snd (checkTranslation wl wi p r st)) = db_defined st \<and>
   (translations_table (disk (snd (checkTranslation wl wi p r st))) = None) =
     (translations_table (disk st) = None)"
  using checkTranslation_cases [of wl wi p r st] by auto

lemma checkTranslation_found:
  assumes "db_defined st" and "translations_table (disk st) = Some rows"
    and "r_selectedLanguage p = Some l" and "(r_transcription p, l) \<in> set (map pair_of rows)"
  shows "checkTranslation Ok wi p r st = (Inr (), st)"
proof -
  from assms(4) have "find (\<lambda>row. t_original_text row = r_transcription p \<and>
      Some (t_language row) = Some l) rows \<noteq> None"
    by (auto simp: find_None_iff pair_of_def)
  with assms(1-3) show ?thesis
    by (auto simp: checkTranslation_def checkIfTranslationExists_def query_def
        select_translation_def)
qed

lemma checkTranslation_cannot_write:
  assumes "\<not> db_defined st \<or> translations_table (disk st) = None \<or> r_selectedLanguage p = None"
  shows "checkTranslation wl wi p r st = (Inr (), st)"
  using checkTranslation_cases [of wl wi p r st] checkTranslation_resolves [of wl wi p r st] assms
  by (auto simp: prod_eq_iff)

lemma checkTranslation_writes:
  assumes "db_defined st" and "translations_table (disk st) = Some rows"
    and "r_selectedLanguage p = Some l" and "(r_transcription p, l) \<notin> set (map pair_of rows)"
  shows "stored_translations (snd (checkTranslation Ok Ok p r st)) =
           rows @ [raw_row (next_rowid (disk st) rows) p l r]"
proof -
  from assms(4) have "find (\<lambda>row. t_original_text row = r_transcription p \<and>
      Some (t_language row) = Some l) rows = None"
    by (force simp: find_None_iff pair_of_def)
  with assms(1-3) show ?thesis
    by (auto simp: checkTranslation_def checkIfTranslationExists_def query_def
        select_translation_def addTranslation_def runAsync_def insert_translation_def
        stored_translations_def raw_row_def)
qed

lemma distinct_key_once:
  "distinct (map f xs) \<Longrightarrow> k \<in> set (map f xs) \<Longrightarrow> length (filter (\<lambda>x. f x = k) xs) = 1"
proof (induction xs)
  case Nil
  then show ?case by simp
next
  case (Cons x xs)
  show ?case
  proof (cases "f x = k")
    case True
    from Cons.prems(1) have "f x \<notin> f ` set xs" by simp
    with True have "\<forall>y \<in> set xs. f y \<noteq> k" by blast
    then have "filter (\<lambda>y. f y = k) xs = []"
      by (simp add: filter_empty_conv)
    with True show ?thesis by simp
  next
    case False
    with Cons show ?thesis by auto
  qed
qed

section \<open>Properties of the translation form\<close>

lemma or_else_nonempty: "d \<noteq> [] \<Longrightarrow> or_else x d \<noteq> []"
  by (cases x) auto

lemma loadSettings_row:
  assumes "fetchSettings w st = Inr (first # rest)"
  shows "storedLanguage (loadSettings w st fs) = Some (or_else (s_language first) ''en'') \<and>
         filteredLanguages (loadSettings w st fs) =
           filter (\<lambda>lang. lang_value lang \<noteq> or_else (s_language first) ''en'') languages"
  using assms by (simp add: loadSettings_def Let_def split: list.split)

lemma loadSettings_source:
  assumes "fetchSettings w st = Inr (first # rest)"
  shows "source (requestBody t (loadSettings w st fs)) = or_else (s_language first) ''en''"
  using loadSettings_row [OF assms, of fs] or_else_nonempty [of "''en''" "s_language first"]
  by (simp add: requestBody_def)

lemma picker_excludes_stored_source:
  assumes "fetchSettings w st = Inr (first # rest)"
  shows "source (requestBody t (loadSettings w st fs)) \<notin> candidates (loadSettings w st fs)"
  using loadSettings_row [OF assms, of fs] loadSettings_source [OF assms, of t fs]
  by (auto simp: candidates_def)

lemma picked_target_is_candidate:
  "selectedLanguage fs = None \<or> the (selectedLanguage fs) \<in> candidates fs \<Longrightarrow>
   selectedLanguage (onValueChange n fs) = None \<or>
   the (selectedLanguage (onValueChange n fs)) \<in> candidates (onValueChange n fs)"
  by (auto simp: onValueChange_def candidates_def)

lemma loaded_target_is_candidate:
  "selectedLanguage (loadSettings w st initial_form) = None \<or>
   the (selectedLanguage (loadSettings w st initial_form)) \<in>
     candidates (loadSettings w st initial_form)"
  by (auto simp: loadSettings_def initial_form_def candidates_def languages_def Let_def
      split: sum.split list.split)

text \<open>
  \<^bold>\<open>C2.\<close> The code at the input where the claim fails: the settings cannot be read
  (\<^verbatim>\<open>fetchSettings\<close> answers the empty array), the picker is given every language, the
  request names "en" as the source, "en" is among the candidates, and "en" is the target
  selected by default. With a settings row the source is filtered out
  (\<open>picker_excludes_stored_source\<close>).
\<close>

theorem picker_offers_source_when_settings_unread:
  "fetchSettings Fault fresh_store = Inr [] \<and>
   source (requestBody ''Hello'' (loadSettings Fault fresh_store initial_form)) = ''en'' \<and>
   ''en'' \<in> candidates (loadSettings Fault fresh_store initial_form) \<and>
   target (requestBody ''Hello'' (loadSettings Fault fresh_store initial_form)) = Some ''en'' \<and>
   handleTranslate echo_service ''Hello'' (loadSettings Fault fresh_store initial_form) =
     NavigateSpeaker
       \<lparr>r_transcription = ''Hello'', r_selectedLanguage = Some ''en'',
        r_translatedText = ''Hello''\<rparr>"
  by (simp add: store_eval form_eval handleTranslate_def echo_service_def)

section \<open>Properties of the transcription screen\<close>

lemma after_fetch_sent: "sent (after_fetch formData resp) = [formData]"
  by (simp add: after_fetch_def transcribe_failed_def split: response.split option.split sum.split)

lemma sendAudio_sent_content:
  "map content (sent (sendAudioForTranscription w st os (Inr True) (Inr c) speech)) =
     [strip_data_prefix os c]"
  by (simp add: sendAudioForTranscription_def fetchSettings_def after_fetch_sent formData_of_def
      split: sum.split)

text \<open>
  \<^bold>\<open>C8.\<close> As stated the claim fails for an empty recording: a file that exists and is empty
  is read and sent, and the request carries the empty content.
\<close>

theorem empty_recording_is_sent:
  "map content (sent (TranslateScreen (Some ''file:///recordings/recording-1.wav'') Ok fresh_store
      Ios (Inr True) (Inr []) speech_unavailable)) = [[]]"
  by (simp add: TranslateScreen_def sendAudioForTranscription_def fetchSettings_def
      speech_unavailable_def after_fetch_def transcribe_failed_def formData_of_def
      strip_data_prefix_def split: sum.split)

text \<open>
  \<^bold>\<open>C8, as amended.\<close> When there is no recording reference, when the file does not exist,
  or when looking up or reading the file throws, no request goes to the speech service and
  no transcription is set: without a reference nothing is shown, for a missing file the
  alert "Audio file does not exist." is shown, and for a throwing call the alert of a
  failed transcription. A file that exists and can be read is sent, whatever it holds.
\<close>

theorem no_request_without_audio_file:
  "(audio_unavailable recordingUri info file \<longrightarrow>
      sent (TranslateScreen recordingUri w st os info file speech) = [] \<and>
      transcription (TranslateScreen recordingUri w st os info file speech) = None) \<and>
   (\<not> truthy recordingUri \<longrightarrow>
      alerts (TranslateScreen recordingUri w st os info file speech) = []) \<and>
   (truthy recordingUri \<and> info = Inr False \<longrightarrow>
      alerts (TranslateScreen recordingUri w st os info file speech) =
        [''Audio file does not exist.'']) \<and>
   (truthy recordingUri \<and> (info = Inl e \<or> info = Inr True \<and> file = Inl e) \<longrightarrow>
      alerts (TranslateScreen recordingUri w st os info file speech) =
        [''Failed to transcribe the audio.'']) \<and>
   (truthy recordingUri \<and> info = Inr True \<and> file = Inr c \<longrightarrow>
      map content (sent (TranslateScreen recordingUri w st os info file speech)) =
        [strip_data_prefix os c])"
proof -
  have "audio_unavailable recordingUri info file \<Longrightarrow>
      sent (TranslateScreen recordingUri w st os info file speech) = [] \<and>
      transcription (TranslateScreen recordingUri w st os info file speech) = None"
    by (cases "(recordingUri, info, file)" rule: audio_unavailable.cases)
      (auto simp: TranslateScreen_def sendAudioForTranscription_def fetchSettings_def
        transcribe_failed_def split: sum.split)
  moreover have "truthy recordingUri \<and> (info = Inl e \<or> info = Inr True \<and> file = Inl e) \<Longrightarrow>
      alerts (TranslateScreen recordingUri w st os info file speech) =
        [''Failed to transcribe the audio.'']"
    by (auto simp: TranslateScreen_def sendAudioForTranscription_def fetchSettings_def
        transcribe_failed_def split: sum.split)
  moreover have "truthy recordingUri \<and> info = Inr False \<Longrightarrow>
      alerts (TranslateScreen recordingUri w st os info file speech) =
        [''Audio file does not exist.'']"
    by (auto simp: TranslateScreen_def sendAudioForTranscription_def fetchSettings_def
        split: sum.split)
  ultimately show ?thesis
    using sendAudio_sent_content [of w st os c speech]
    by (auto simp: TranslateScreen_def)
qed

theorem no_request_without_audio_file_witness:
  "audio_unavailable (Some ''file:///recordings/recording-1.wav'') (Inr False) (Inr ''UklGRg=='') \<and>
   TranslateScreen (Some ''file:///recordings/recording-1.wav'') Ok fresh_store Android
      (Inr False) (Inr ''UklGRg=='') speech_unavailable =
     \<lparr>sent = [], alerts = [''Audio file does not exist.''], transcription = None\<rparr> \<and>
   TranslateScreen None Ok fresh_store Android (Inr True) (Inr ''UklGRg=='') speech_unavailable =
     \<lparr>sent = [], alerts = [], transcription = None\<rparr> \<and>
   map content (sent (TranslateScreen (Some ''file:///recordings/recording-1.wav'') Ok
      fresh_store Android (Inr True) (Inr ''data:audio/aac;base64,UklGRg=='')
      speech_unavailable)) = [''UklGRg=='']"
proof -
  have gone: "audio_unavailable (Some ''file:///recordings/recording-1.wav'') (Inr False)
      (Inr ''UklGRg=='')"
    by simp
  have absent: "\<not> truthy None" by simp
  have there: "truthy (Some ''file:///recordings/recording-1.wav'')" by simp
  from no_request_without_audio_file [of "Some ''file:///recordings/recording-1.wav''"
      "Inr False" "Inr ''UklGRg==''" Ok fresh_store Android speech_unavailable _ _] gone there
  have "sent (TranslateScreen (Some ''file:///recordings/recording-1.wav'') Ok fresh_store Android
      (Inr False) (Inr ''UklGRg=='') speech_unavailable) = []"
    and "transcription (TranslateScreen (Some ''file:///recordings/recording-1.wav'') Ok fresh_store
      Android (Inr False) (Inr ''UklGRg=='') speech_unavailable) = None"
    and "alerts (TranslateScreen (Some ''file:///recordings/recording-1.wav'') Ok fresh_store Android
      (Inr False) (Inr ''UklGRg=='') speech_unavailable) = [''Audio file does not exist.'']"
    by blast+
  then have a: "TranslateScreen (Some ''file:///recordings/recording-1.wav'') Ok fresh_store Android
      (Inr False) (Inr ''UklGRg=='') speech_unavailable =
     \<lparr>sent = [], alerts = [''Audio file does not exist.''], transcription = None\<rparr>"
    by simp
  from no_request_without_audio_file [of None "Inr True" "Inr ''UklGRg==''" Ok fresh_store
      Android speech_unavailable _ _] absent
  have "sent (TranslateScreen None Ok fresh_store Android (Inr True) (Inr ''UklGRg=='')
      speech_unavailable) = []"
    and "transcription (TranslateScreen None Ok fresh_store Android (Inr True) (Inr ''UklGRg=='')
      speech_unavailable) = None"
    and "alerts (TranslateScreen None Ok fresh_store Android (Inr True) (Inr ''UklGRg=='')
      speech_unavailable) = []"
    by simp_all
  then have b: "TranslateScreen None Ok fresh_store Android (Inr True) (Inr ''UklGRg=='')
      speech_unavailable = \<lparr>sent = [], alerts = [], transcription = None\<rparr>"
    by simp
  from no_request_without_audio_file [of "Some ''file:///recordings/recording-1.wav''"
      "Inr True" "Inr ''data:audio/aac;base64,UklGRg==''" Ok fresh_store Android
      speech_unavailable _ "''data:audio/aac;base64,UklGRg==''"] there
  have "map content (sent (TranslateScreen (Some ''file:///recordings/recording-1.wav'') Ok
      fresh_store Android (Inr True) (Inr ''data:audio/aac;base64,UklGRg=='')
      speech_unavailable)) = [strip_data_prefix Android ''data:audio/aac;base64,UklGRg=='']"
    by simp
  then have c: "map content (sent (TranslateScreen (Some ''file:///recordings/recording-1.wav'') Ok
      fresh_store Android (Inr True) (Inr ''data:audio/aac;base64,UklGRg=='')
      speech_unavailable)) = [''UklGRg=='']"
    by (simp add: strip_data_prefix_def)
  from gone a b c show ?thesis by simp
qed

section \<open>Properties of the pending calls of the speaker screen\<close>

subsection \<open>The runs of the effect under one event\<close>

lemma map_update_same: "(map f xs)[k := f (xs ! k)] = map f xs"
proof (cases "k < length xs")
  case True
  then have "f (xs ! k) = map f xs ! k" by simp
  then show ?thesis by (simp only: list_update_id)
next
  case False
  then have "length (map f xs) \<le> k" by simp
  then show ?thesis by (rule list_update_beyond)
qed

lemma find_Some_member: "find P xs = Some x \<Longrightarrow> x \<in> set xs \<and> P x"
  by (induction xs) (auto split: if_splits)

lemma mark_length [simp]:
  "length (mark_answered k runs) = length runs" "length (mark_stage k s runs) = length runs"
  by (simp_all add: mark_answered_def mark_stage_def)

lemma mark_answered_views [simp]:
  "map stage (mark_answered k runs) = map stage runs"
  "map closure_text (mark_answered k runs) = map closure_text runs"
  by (simp_all add: mark_answered_def map_update map_update_same)

lemma mark_stage_views [simp]:
  "map stage (mark_stage k s runs) = (map stage runs)[k := s]"
  "map closure_text (mark_stage k s runs) = map closure_text runs"
  "map answered (mark_stage k s runs) = map answered runs"
  by (simp_all add: mark_stage_def map_update map_update_same)

lemma mark_answered_view [simp]:
  "map answered (mark_answered k runs) = (map answered runs)[k := True]"
  by (simp add: mark_answered_def map_update)

text \<open>The stages of the runs, and the texts of their closures, as lists.\<close>

lemma stage_nth: "k < length runs \<Longrightarrow> stage (runs ! k) = map stage runs ! k"
  by simp

lemma stages_step_answer:
  "map stage (effect_runs (step p (RefinementAnswers k resp) scr)) =
     map stage (effect_runs scr) \<or>
   (\<not> checks_over scr \<longrightarrow> snd (after_refine resp (refinedText scr)) \<noteq> refinedText scr) \<and>
   map stage (effect_runs (step p (RefinementAnswers k resp) scr)) =
     map stage (effect_runs scr) @ [Looking]"
  by (simp add: new_run_def)

lemma store_step_answer [simp]:
  "screen_store (step p (RefinementAnswers k resp) scr) = screen_store scr"
  by simp

lemma store_step_lookup [simp]:
  "screen_store (step p (LookupReturns k w) scr) = screen_store scr"
  by (simp split: sum.split option.split)

lemma lookup_none:
  "checkIfTranslationExists Ok (r_transcription p) (r_selectedLanguage p) st = Inr None \<Longrightarrow>
   \<not> key_stored p st \<or> \<not> db_defined st"
  by (auto simp: checkIfTranslationExists_def query_def select_translation_def key_stored_def
      stored_translations_def find_None_iff list_ex_iff split: option.splits if_splits)

lemma lookup_some:
  "checkIfTranslationExists w (r_transcription p) (r_selectedLanguage p) st = Inr (Some row) \<Longrightarrow>
   key_stored p st"
  by (auto simp: checkIfTranslationExists_def query_def select_translation_def key_stored_def
      stored_translations_def list_ex_iff dest!: find_Some_member
      split: option.splits if_splits io.splits sum.splits)

lemma lookup_resolves:
  "\<exists>r. checkIfTranslationExists w t l st = Inr r"
  by (simp add: checkIfTranslationExists_def split: sum.split)

lemma addTranslation_cases:
  "snd (addTranslation w (r_transcription p) (r_selectedLanguage p) x st) = st \<or>
   (\<exists>l rows. db_defined st \<and> w = Ok \<and> r_selectedLanguage p = Some l \<and>
      translations_table (disk st) = Some rows \<and>
      snd (addTranslation w (r_transcription p) (r_selectedLanguage p) x st) =
        st\<lparr>disk := (disk st)\<lparr>translations_table :=
                Some (rows @ [raw_row (next_rowid (disk st) rows) p l x]),
              sqlite_sequence := next_rowid (disk st) rows\<rparr>\<rparr>)"
  by (cases w)
    (auto simp: addTranslation_def query_def runAsync_def insert_translation_def raw_row_def
      split: option.split sum.split)

lemma addTranslation_stored:
  "stored_translations (snd (addTranslation w (r_transcription p) (r_selectedLanguage p) x st)) =
     stored_translations st \<or>
   (\<exists>i l. r_selectedLanguage p = Some l \<and>
      stored_translations (snd (addTranslation w (r_transcription p) (r_selectedLanguage p) x st)) =
        stored_translations st @ [raw_row i p l x])"
  using addTranslation_cases [of w p x st] by (auto simp: stored_translations_def)

lemma addTranslation_shape:
  "db_defined (snd (addTranslation w (r_transcription (p :: route_params))
       (r_selectedLanguage p) x st)) =
     db_defined st \<and>
   settings_table (disk (snd (addTranslation w (r_transcription p) (r_selectedLanguage p) x st))) =
     settings_table (disk st) \<and>
   (translations_table (disk (snd (addTranslation w (r_transcription p) (r_selectedLanguage p)
       x st))) = None) = (translations_table (disk st) = None)"
  using addTranslation_cases [of w p x st] by auto

lemma key_stored_row:
  "r_selectedLanguage p = Some l \<Longrightarrow>
   key_stored p st = ((r_transcription p, l) \<in> set (map pair_of (stored_translations st)))"
  by (force simp: key_stored_def list_ex_iff pair_of_def)

lemma addTranslation_no_duplicates:
  assumes "\<not> key_stored p st \<or> \<not> db_defined st" and "no_duplicates st"
  shows "no_duplicates (snd (addTranslation w (r_transcription p) (r_selectedLanguage p) x st))"
proof -
  from addTranslation_cases [of w p x st]
  consider "snd (addTranslation w (r_transcription p) (r_selectedLanguage p) x st) = st"
    | l rows where "db_defined st" "r_selectedLanguage p = Some l"
        "translations_table (disk st) = Some rows"
        "stored_translations
           (snd (addTranslation w (r_transcription p) (r_selectedLanguage p) x st)) =
         rows @ [raw_row (next_rowid (disk st) rows) p l x]"
    by (auto simp: stored_translations_def)
  then show ?thesis
  proof cases
    case 1
    with assms(2) show ?thesis by simp
  next
    case 2
    from 2(1,2,3) assms(1) have "(r_transcription p, l) \<notin> set (map pair_of rows)"
      by (simp add: key_stored_row stored_translations_def)
    moreover from assms(2) 2(3) have "distinct (map pair_of rows)"
      by (simp add: no_duplicates_def stored_translations_def)
    ultimately show ?thesis
      using 2(4) by (simp add: no_duplicates_def raw_row_def pair_of_def)
  qed
qed

lemma addTranslation_key_stored_mono:
  "key_stored (p' :: route_params) st \<Longrightarrow>
   key_stored p' (snd (addTranslation w (r_transcription (p :: route_params))
     (r_selectedLanguage p) x st))"
  using addTranslation_stored [of w p x st] by (auto simp: key_stored_def list_ex_iff)

lemma checks_over_stages: "checks_over scr = (\<forall>s \<in> set (stages scr). s = Finished)"
  by (auto simp: checks_over_def stages_def list_all_iff)

lemma stages_mount [simp]: "stages (mount p st) = [Looking]"
  by (simp add: stages_def mount_def new_run_def)

lemma store_mount [simp]: "screen_store (mount p st) = st"
  by (simp add: mount_def)

text \<open>What one event does to the stages and to the store.\<close>

lemma step_answer:
  assumes "turn_ok (RefinementAnswers k resp) scr"
  shows "screen_store (step p (RefinementAnswers k resp) scr) = screen_store scr \<and>
         (stages (step p (RefinementAnswers k resp) scr) = stages scr \<or>
          checks_over scr \<and>
          stages (step p (RefinementAnswers k resp) scr) = stages scr @ [Looking])"
  using assms by (auto simp: stages_def new_run_def)

lemma step_answer_any:
  "screen_store (step p (RefinementAnswers k resp) scr) = screen_store scr \<and>
   (stages (step p (RefinementAnswers k resp) scr) = stages scr \<or>
    stages (step p (RefinementAnswers k resp) scr) = stages scr @ [Looking])"
  by (auto simp: stages_def new_run_def)

lemma step_lookup:
  "screen_store (step p (LookupReturns k w) scr) = screen_store scr \<and>
   (stages (step p (LookupReturns k w) scr) = stages scr \<or>
    k < length (stages scr) \<and> stages scr ! k = Looking \<and>
    (checkIfTranslationExists w (r_transcription p) (r_selectedLanguage p) (screen_store scr) =
       Inr None \<and>
     stages (step p (LookupReturns k w) scr) = (stages scr)[k := Inserting] \<or>
     (\<exists>row. checkIfTranslationExists w (r_transcription p) (r_selectedLanguage p)
        (screen_store scr) = Inr (Some row)) \<and>
     stages (step p (LookupReturns k w) scr) = (stages scr)[k := Finished]))"
proof -
  obtain r where r: "checkIfTranslationExists w (r_transcription p) (r_selectedLanguage p)
      (screen_store scr) = Inr r"
    using lookup_resolves by blast
  show ?thesis
  proof (cases "k < length (effect_runs scr) \<and> stage (effect_runs scr ! k) = Looking")
    case False
    then have "step p (LookupReturns k w) scr = scr" by auto
    then show ?thesis by simp
  next
    case True
    with r show ?thesis by (cases r) (simp_all add: stages_def)
  qed
qed

lemma step_insert:
  "step p (InsertReturns k w) scr = scr \<or>
   k < length (stages scr) \<and> stages scr ! k = Inserting \<and>
   stages (step p (InsertReturns k w) scr) = (stages scr)[k := Finished] \<and>
   screen_store (step p (InsertReturns k w) scr) =
     snd (addTranslation w (r_transcription p) (r_selectedLanguage p)
            (closure_text (effect_runs scr ! k)) (screen_store scr))"
  by (auto simp: stages_def)

declare step.simps [simp del]

text \<open>Lists of stages in which only the last run can be pending.\<close>

lemma last_only_append:
  "\<forall>s \<in> set ss. s = Finished \<Longrightarrow> last_only (ss @ [x])"
  by (auto simp: last_only_def nth_append)

lemma last_only_update:
  "last_only ss \<Longrightarrow> k < length ss \<Longrightarrow> ss ! k \<noteq> Finished \<Longrightarrow> last_only (ss[k := x])"
  by (auto simp: last_only_def nth_list_update)

lemma last_only_no_other:
  assumes "last_only ss" and "k < length ss" and "ss ! k \<noteq> Finished" and "x \<noteq> y"
    and "\<not> (x = Finished)"
  shows "x \<in> set (ss[k := y]) \<Longrightarrow> False"
proof -
  assume "x \<in> set (ss[k := y])"
  then obtain j where j: "j < length ss" "ss[k := y] ! j = x"
    by (auto simp: in_set_conv_nth)
  show False
  proof (cases "j = k")
    case True
    with j assms(2,4) show False by simp
  next
    case False
    with j have "ss ! j = x" by simp
    with assms(1,5) j(1) have "Suc j = length ss" by (auto simp: last_only_def)
    moreover from assms(1,2,3) have "Suc k = length ss" by (auto simp: last_only_def)
    ultimately show False using False by simp
  qed
qed

lemma dedup_inv_step:
  assumes inv: "dedup_inv p scr" and turn: "turn_ok ev scr" and ok: "lookup_succeeds ev"
  shows "dedup_inv p (step p ev scr)"
proof (cases ev)
  case (RefinementAnswers k resp)
  with turn step_answer [of k resp scr p] inv show ?thesis
    by (auto simp: dedup_inv_def checks_over_stages last_only_append)
next
  case (LookupReturns k w)
  with ok have w: "w = Ok" by simp
  from step_lookup [of p k w scr]
  consider "stages (step p (LookupReturns k w) scr) = stages scr"
    | "k < length (stages scr)" "stages scr ! k = Looking"
      "checkIfTranslationExists w (r_transcription p) (r_selectedLanguage p) (screen_store scr) =
         Inr None"
      "stages (step p (LookupReturns k w) scr) = (stages scr)[k := Inserting]"
    | "k < length (stages scr)" "stages scr ! k = Looking"
      "stages (step p (LookupReturns k w) scr) = (stages scr)[k := Finished]"
    by blast
  then show ?thesis
  proof cases
    case 1
    with inv LookupReturns show ?thesis by (simp add: dedup_inv_def)
  next
    case 2
    from inv have lo: "last_only (stages scr)" by (simp add: dedup_inv_def)
    from 2(3) w have "\<not> key_stored p (screen_store scr) \<or> \<not> db_defined (screen_store scr)"
      using lookup_none [of p "screen_store scr"] by blast
    with inv 2 lo LookupReturns show ?thesis
      by (simp add: dedup_inv_def last_only_update)
  next
    case 3
    from inv have lo: "last_only (stages scr)" by (simp add: dedup_inv_def)
    have "Inserting \<notin> set ((stages scr)[k := Finished])"
      using last_only_no_other [OF lo 3(1), of Inserting Finished] 3(2) by auto
    with inv 3 lo LookupReturns show ?thesis
      by (simp add: dedup_inv_def last_only_update)
  qed
next
  case (InsertReturns k w)
  from step_insert [of p k w scr]
  consider "step p (InsertReturns k w) scr = scr"
    | "k < length (stages scr)" "stages scr ! k = Inserting"
      "stages (step p (InsertReturns k w) scr) = (stages scr)[k := Finished]"
      "screen_store (step p (InsertReturns k w) scr) =
         snd (addTranslation w (r_transcription p) (r_selectedLanguage p)
                (closure_text (effect_runs scr ! k)) (screen_store scr))"
    by blast
  then show ?thesis
  proof cases
    case 1
    with inv InsertReturns show ?thesis by simp
  next
    case 2
    from inv have lo: "last_only (stages scr)" by (simp add: dedup_inv_def)
    from 2(1,2) have "Inserting \<in> set (stages scr)" by (auto simp: in_set_conv_nth)
    with inv have "\<not> key_stored p (screen_store scr) \<or> \<not> db_defined (screen_store scr)"
      by (simp add: dedup_inv_def)
    moreover from inv have "no_duplicates (screen_store scr)" by (simp add: dedup_inv_def)
    ultimately have nd: "no_duplicates (screen_store (step p (InsertReturns k w) scr))"
      using 2(4) by (simp add: addTranslation_no_duplicates)
    have "Inserting \<notin> set ((stages scr)[k := Finished])"
      using last_only_no_other [OF lo 2(1), of Inserting Finished] 2(2) by auto
    with nd 2 lo InsertReturns show ?thesis
      by (simp add: dedup_inv_def last_only_update)
  qed
qed

lemma dedup_inv_events:
  "dedup_inv p scr \<Longrightarrow> in_turn p evs scr \<Longrightarrow> list_all lookup_succeeds evs \<Longrightarrow>
   dedup_inv p (run_events p evs scr)"
proof (induction evs arbitrary: scr)
  case Nil
  then show ?case by (simp add: run_events_def)
next
  case (Cons ev evs)
  from Cons.prems have "dedup_inv p (step p ev scr)"
    by (simp add: dedup_inv_step)
  with Cons.IH [of "step p ev scr"] Cons.prems show ?case
    by (simp add: run_events_def)
qed

lemma dedup_inv_mount: "no_duplicates st \<Longrightarrow> dedup_inv p (mount p st)"
  by (simp add: dedup_inv_def last_only_def)

lemma visit_no_duplicates:
  "in_turn p evs (mount p st) \<Longrightarrow> list_all lookup_succeeds evs \<Longrightarrow> no_duplicates st \<Longrightarrow>
   no_duplicates (visit p evs st)"
  using dedup_inv_events [OF dedup_inv_mount, of st p evs]
  by (simp add: visit_def dedup_inv_def)

lemma visits_no_duplicates:
  "visits_in_turn vs st \<Longrightarrow> no_duplicates st \<Longrightarrow> no_duplicates (visits vs st)"
proof (induction vs arbitrary: st)
  case Nil
  then show ?case by simp
next
  case (Cons v vs)
  obtain p evs where v: "v = (p, evs)" by (cases v)
  with Cons.prems have "no_duplicates (visit p evs st)" and "visits_in_turn vs (visit p evs st)"
    by (simp_all add: visit_no_duplicates)
  with Cons.IH v show ?case by simp
qed

lemma closures_mount [simp]: "closures (mount p st) = [r_translatedText p]"
  by (simp add: closures_def mount_def new_run_def)

lemma refinedText_mount [simp]: "refinedText (mount p st) = r_translatedText p"
  by (simp add: mount_def)

lemma closure_nth: "k < length (stages scr) \<Longrightarrow> closure_text (effect_runs scr ! k) = closures scr ! k"
  by (simp add: closures_def stages_def)

lemma step_answer_views:
  "closures (step p (RefinementAnswers k resp) scr) = closures scr \<and>
   refinedText (step p (RefinementAnswers k resp) scr) = refinedText scr \<and>
   stages (step p (RefinementAnswers k resp) scr) = stages scr \<or>
   snd (after_refine resp (refinedText scr)) \<noteq> refinedText scr \<and>
   refinedText (step p (RefinementAnswers k resp) scr) = snd (after_refine resp (refinedText scr)) \<and>
   closures (step p (RefinementAnswers k resp) scr) =
     closures scr @ [snd (after_refine resp (refinedText scr))] \<and>
   stages (step p (RefinementAnswers k resp) scr) = stages scr @ [Looking]"
  by (auto simp: step.simps closures_def stages_def new_run_def)

lemma step_lookup_views [simp]:
  "closures (step p (LookupReturns k w) scr) = closures scr"
  "refinedText (step p (LookupReturns k w) scr) = refinedText scr"
  "map answered (effect_runs (step p (LookupReturns k w) scr)) = map answered (effect_runs scr)"
  by (simp_all add: step.simps closures_def split: sum.split option.split)

lemma step_insert_views [simp]:
  "closures (step p (InsertReturns k w) scr) = closures scr"
  "refinedText (step p (InsertReturns k w) scr) = refinedText scr"
  "map answered (effect_runs (step p (InsertReturns k w) scr)) = map answered (effect_runs scr)"
  by (simp_all add: step.simps closures_def)

text \<open>A failing insert writes nothing.\<close>

lemma step_insert_fault [simp]:
  "screen_store (step p (InsertReturns k Fault) scr) = screen_store scr"
  by (simp add: step.simps addTranslation_def runAsync_def query_def)

subsection \<open>Lookups and inserts on a store that can be written\<close>


lemma addTranslation_writes:
  assumes "writable p st"
  shows "\<exists>i l. r_selectedLanguage p = Some l \<and>
           stored_translations
             (snd (addTranslation Ok (r_transcription p) (r_selectedLanguage p) x st)) =
             stored_translations st @ [raw_row i p l x]"
    and "writable p (snd (addTranslation Ok (r_transcription p) (r_selectedLanguage p) x st))"
    and "key_stored p (snd (addTranslation Ok (r_transcription p) (r_selectedLanguage p) x st))"
  using assms
  by (auto simp: writable_def addTranslation_def runAsync_def query_def insert_translation_def
      stored_translations_def raw_row_def key_stored_def)

lemma lookup_found:
  assumes "db_defined st" and "translations_table (disk st) \<noteq> None" and "key_stored p st"
  shows "\<exists>row. checkIfTranslationExists Ok (r_transcription p) (r_selectedLanguage p) st =
           Inr (Some row)"
proof -
  from assms(2) obtain rows where rows: "translations_table (disk st) = Some rows" by auto
  with assms(3) have "find (\<lambda>r. t_original_text r = r_transcription p \<and>
      Some (t_language r) = r_selectedLanguage p) rows \<noteq> None"
    by (auto simp: key_stored_def stored_translations_def list_ex_iff find_None_iff)
  with assms(1) rows show ?thesis
    by (auto simp: checkIfTranslationExists_def query_def select_translation_def)
qed


lemma key_stored_same_pair:
  "r_transcription p' = r_transcription p \<Longrightarrow> r_selectedLanguage p' = r_selectedLanguage p \<Longrightarrow>
   key_stored p' st = key_stored p st"
  by (simp add: key_stored_def)

subsection \<open>Records are only added, and the first run keeps the raw text\<close>

lemma step_key_stored_mono:
  "key_stored p' (screen_store scr) \<Longrightarrow> key_stored p' (screen_store (step p ev scr))"
proof (cases ev)
  case (InsertReturns k w)
  assume "key_stored p' (screen_store scr)"
  with InsertReturns step_insert [of p k w scr] show ?thesis
    by (auto simp: addTranslation_key_stored_mono)
qed simp_all

lemma events_key_stored_mono:
  "key_stored p' (screen_store scr) \<Longrightarrow> key_stored p' (screen_store (run_events p evs scr))"
  by (induction evs arbitrary: scr) (simp_all add: run_events_def step_key_stored_mono)

lemma step_first_closure:
  assumes "closures scr \<noteq> []"
  shows "closures (step p ev scr) \<noteq> [] \<and> closures (step p ev scr) ! 0 = closures scr ! 0"
proof (cases ev)
  case (RefinementAnswers k resp)
  with assms step_answer_views [of p k resp scr] show ?thesis
    by (auto simp: nth_append)
qed (use assms in simp_all)

lemma events_first_closure:
  "closures scr \<noteq> [] \<Longrightarrow>
   closures (run_events p evs scr) \<noteq> [] \<and> closures (run_events p evs scr) ! 0 = closures scr ! 0"
proof (induction evs arbitrary: scr)
  case Nil
  then show ?case by (simp add: run_events_def)
next
  case (Cons ev evs)
  from step_first_closure [OF Cons.prems, of p ev] Cons.IH [of "step p ev scr"]
  show ?case by (simp add: run_events_def)
qed

lemma stages_closures_length: "length (stages scr) = length (closures scr)"
  by (simp add: stages_def closures_def)


subsection \<open>After a check that is over, the pair is stored\<close>

lemma set_update_other: "x \<in> set (ss[k := y]) \<Longrightarrow> x \<noteq> y \<Longrightarrow> x \<in> set ss"
  using set_update_subset_insert [of ss k y] by auto

lemma finished_inv_step:
  assumes inv: "finished_inv p scr" and ok: "statement_succeeds ev"
  shows "finished_inv p (step p ev scr)"
proof (cases ev)
  case (RefinementAnswers k resp)
  with inv step_answer_any [of p k resp scr] show ?thesis
    by (auto simp: finished_inv_def)
next
  case (LookupReturns k w)
  with ok have w: "w = Ok" by simp
  from step_lookup [of p k w scr]
  consider "stages (step p (LookupReturns k w) scr) = stages scr"
    | "stages (step p (LookupReturns k w) scr) = (stages scr)[k := Inserting]"
    | row where "checkIfTranslationExists w (r_transcription p) (r_selectedLanguage p)
        (screen_store scr) = Inr (Some row)"
    by blast
  then show ?thesis
  proof cases
    case 1
    with inv LookupReturns show ?thesis by (simp add: finished_inv_def)
  next
    case 2
    with inv LookupReturns show ?thesis
      by (auto simp: finished_inv_def dest: set_update_other)
  next
    case 3
    then have "key_stored p (screen_store scr)" using lookup_some by blast
    with inv LookupReturns show ?thesis by (simp add: finished_inv_def)
  qed
next
  case (InsertReturns k w)
  with ok have w: "w = Ok" by simp
  from step_insert [of p k w scr]
  consider "step p (InsertReturns k w) scr = scr"
    | "screen_store (step p (InsertReturns k w) scr) =
         snd (addTranslation w (r_transcription p) (r_selectedLanguage p)
                (closure_text (effect_runs scr ! k)) (screen_store scr))"
    by blast
  then show ?thesis
  proof cases
    case 1
    with inv InsertReturns show ?thesis by simp
  next
    case 2
    from inv have "writable p (screen_store scr)" by (simp add: finished_inv_def)
    from addTranslation_writes(2,3) [OF this, of "closure_text (effect_runs scr ! k)"] 2 w
      InsertReturns
    show ?thesis by (simp add: finished_inv_def)
  qed
qed

lemma finished_inv_events:
  "finished_inv p scr \<Longrightarrow> list_all statement_succeeds evs \<Longrightarrow>
   finished_inv p (run_events p evs scr)"
proof (induction evs arbitrary: scr)
  case Nil
  then show ?case by (simp add: run_events_def)
next
  case (Cons ev evs)
  from Cons.prems have "finished_inv p (step p ev scr)"
    by (simp add: finished_inv_step)
  from Cons.IH [OF this] Cons.prems(2) show ?case by (simp add: run_events_def)
qed

lemma checks_over_key_stored:
  assumes "writable p st" and "list_all statement_succeeds evs"
    and "checks_over (run_events p evs (mount p st))"
  shows "key_stored p (visit p evs st)"
proof -
  from assms(1) have "finished_inv p (mount p st)" by (simp add: finished_inv_def)
  from finished_inv_events [OF this assms(2)]
  have inv: "finished_inv p (run_events p evs (mount p st))" .
  from events_first_closure [of "mount p st" p evs]
  have "stages (run_events p evs (mount p st)) \<noteq> []"
    using stages_closures_length [of "run_events p evs (mount p st)"] by auto
  with assms(3) have "Finished \<in> set (stages (run_events p evs (mount p st)))"
    by (cases "stages (run_events p evs (mount p st))") (auto simp: checks_over_stages)
  with inv show ?thesis by (simp add: finished_inv_def visit_def)
qed

subsection \<open>Once the pair is stored, the store stays as it is\<close>



lemma settled_step:
  assumes inv: "settled p scr" and ok: "lookup_succeeds ev"
  shows "settled p (step p ev scr) \<and> screen_store (step p ev scr) = screen_store scr"
proof (cases ev)
  case (RefinementAnswers k resp)
  with inv step_answer_any [of p k resp scr] show ?thesis
    by (auto simp: settled_def)
next
  case (LookupReturns k w)
  with ok have w: "w = Ok" by simp
  from inv have "\<exists>row. checkIfTranslationExists Ok (r_transcription p) (r_selectedLanguage p)
      (screen_store scr) = Inr (Some row)"
    by (simp add: settled_def lookup_found)
  with w step_lookup [of p k w scr]
  have "stages (step p (LookupReturns k w) scr) = stages scr \<or>
        stages (step p (LookupReturns k w) scr) = (stages scr)[k := Finished]"
    by auto
  with inv LookupReturns show ?thesis
    by (auto simp: settled_def dest: set_update_other)
next
  case (InsertReturns k w)
  from inv have "\<not> (k < length (stages scr) \<and> stages scr ! k = Inserting)"
    by (auto simp: settled_def dest: nth_mem)
  with step_insert [of p k w scr] have "step p (InsertReturns k w) scr = scr" by blast
  with inv InsertReturns show ?thesis by simp
qed

lemma settled_events:
  "settled p scr \<Longrightarrow> list_all lookup_succeeds evs \<Longrightarrow>
   settled p (run_events p evs scr) \<and>
   screen_store (run_events p evs scr) = screen_store scr"
proof (induction evs arbitrary: scr)
  case Nil
  then show ?case by (simp add: run_events_def)
next
  case (Cons ev evs)
  from Cons.prems settled_step [of p scr ev]
  have s: "settled p (step p ev scr)" "screen_store (step p ev scr) = screen_store scr"
    by simp_all
  from Cons.IH [OF s(1)] Cons.prems(2) s(2) show ?case by (simp add: run_events_def)
qed

subsection \<open>A store that cannot be written stays as it is\<close>



subsection \<open>Events in turn write the raw text\<close>





subsection \<open>Without a refinement there is one check, with the raw text\<close>

lemma refinement_fallback:
  "refinement_fails_or_empty resp \<Longrightarrow> snd (after_refine resp r) = r"
  by (cases resp rule: refinement_fails_or_empty.cases) (simp_all add: after_refine_def)

lemma quiet_inv_step:
  assumes inv: "quiet_inv p st scr" and quiet: "no_refinement ev"
  shows "quiet_inv p st (step p ev scr)"
proof (cases ev)
  case (RefinementAnswers k resp)
  with quiet have "snd (after_refine resp (refinedText scr)) = refinedText scr"
    by (simp add: refinement_fallback)
  with step_answer_views [of p k resp scr] step_answer_any [of p k resp scr]
  have "closures (step p ev scr) = closures scr" "stages (step p ev scr) = stages scr"
    "screen_store (step p ev scr) = screen_store scr"
    "refinedText (step p ev scr) = refinedText scr"
    using RefinementAnswers by auto
  with inv show ?thesis by (simp add: quiet_inv_def)
next
  case (LookupReturns k w)
  from inv have shown: "refinedText scr = r_translatedText p"
    and cl: "closures scr = [r_translatedText p]" by (simp_all add: quiet_inv_def)
  from step_lookup [of p k w scr]
  consider "stages (step p (LookupReturns k w) scr) = stages scr"
    | "k < length (stages scr)" "stages scr ! k = Looking"
      "checkIfTranslationExists w (r_transcription p) (r_selectedLanguage p) (screen_store scr) =
         Inr None"
      "stages (step p (LookupReturns k w) scr) = (stages scr)[k := Inserting]"
    | row where "k < length (stages scr)" "stages scr ! k = Looking"
      "checkIfTranslationExists w (r_transcription p) (r_selectedLanguage p) (screen_store scr) =
         Inr (Some row)"
      "stages (step p (LookupReturns k w) scr) = (stages scr)[k := Finished]"
    by blast
  then show ?thesis
  proof cases
    case 1
    with inv LookupReturns show ?thesis by (simp add: quiet_inv_def)
  next
    case 2
    from inv 2(1,2) have s: "stages scr = [Looking]" "screen_store scr = st" "k = 0"
      by (auto simp: quiet_inv_def)
    with 2(3,4) shown cl LookupReturns show ?thesis
      by (auto simp: quiet_inv_def)
  next
    case 3
    from inv 3(1,2) have s: "stages scr = [Looking]" "screen_store scr = st" "k = 0"
      by (auto simp: quiet_inv_def)
    from 3(3) s(2)
    have "snd (checkTranslation w Ok p (r_translatedText p) st) = st"
      by (simp add: checkTranslation_def)
    then have "\<exists>wl wi. st = snd (checkTranslation wl wi p (r_translatedText p) st)"
      by metis
    with s 3(4) shown cl LookupReturns show ?thesis
      by (simp add: quiet_inv_def)
  qed
next
  case (InsertReturns k w)
  from inv have shown: "refinedText scr = r_translatedText p"
    and cl: "closures scr = [r_translatedText p]" by (simp_all add: quiet_inv_def)
  from step_insert [of p k w scr]
  consider "step p (InsertReturns k w) scr = scr"
    | "k < length (stages scr)" "stages scr ! k = Inserting"
      "stages (step p (InsertReturns k w) scr) = (stages scr)[k := Finished]"
      "screen_store (step p (InsertReturns k w) scr) =
         snd (addTranslation w (r_transcription p) (r_selectedLanguage p)
                (closure_text (effect_runs scr ! k)) (screen_store scr))"
    by blast
  then show ?thesis
  proof cases
    case 1
    with inv InsertReturns show ?thesis by simp
  next
    case 2
    from inv 2(1,2) obtain wl where s: "stages scr = [Inserting]" "screen_store scr = st" "k = 0"
      and wl: "checkIfTranslationExists wl (r_transcription p) (r_selectedLanguage p) st = Inr None"
      by (auto simp: quiet_inv_def)
    from 2(1) cl s(3) have clo: "closure_text (effect_runs scr ! k) = r_translatedText p"
      by (simp add: closure_nth)
    from wl have "snd (checkTranslation wl w p (r_translatedText p) st) =
        snd (addTranslation w (r_transcription p) (r_selectedLanguage p) (r_translatedText p) st)"
      by (simp add: checkTranslation_def)
    with 2(4) clo s(2)
    have "\<exists>wl wi. screen_store (step p (InsertReturns k w) scr) =
        snd (checkTranslation wl wi p (r_translatedText p) st)"
      by metis
    with s 2(3) shown cl InsertReturns show ?thesis
      by (simp add: quiet_inv_def)
  qed
qed

lemma quiet_inv_events:
  "quiet_inv p st scr \<Longrightarrow> list_all no_refinement evs \<Longrightarrow> quiet_inv p st (run_events p evs scr)"
proof (induction evs arbitrary: scr)
  case Nil
  then show ?case by (simp add: run_events_def)
next
  case (Cons ev evs)
  from Cons.prems have "quiet_inv p st (step p ev scr)" by (simp add: quiet_inv_step)
  from Cons.IH [OF this] Cons.prems(2) show ?case by (simp add: run_events_def)
qed

lemma quiet_inv_mount: "quiet_inv p st (mount p st)"
  by (simp add: quiet_inv_def)

subsection \<open>The text on the screen does not depend on the store\<close>

lemma text_view_answer:
  assumes "text_view scr = text_view scr'"
  shows "text_view (step p (RefinementAnswers k resp) scr) =
         text_view (step p' (RefinementAnswers k resp) scr')"
proof -
  from assms have r: "refinedText scr = refinedText scr'"
    and a: "map answered (effect_runs scr) = map answered (effect_runs scr')"
    by (simp_all add: text_view_def)
  from a have len: "length (effect_runs scr) = length (effect_runs scr')"
    by (rule map_eq_imp_length_eq)
  have nth: "answered (effect_runs scr ! k) = answered (effect_runs scr' ! k)"
    if "k < length (effect_runs scr)"
  proof -
    from a have "map answered (effect_runs scr) ! k = map answered (effect_runs scr') ! k"
      by simp
    with that len show ?thesis by simp
  qed
  from a have upd: "map answered (mark_answered k (effect_runs scr)) =
      map answered (mark_answered k (effect_runs scr'))"
    using len by (simp add: mark_answered_def map_update)
  show ?thesis
  proof (cases "k < length (effect_runs scr) \<and> \<not> answered (effect_runs scr ! k)")
    case True
    with len nth have "k < length (effect_runs scr') \<and> \<not> answered (effect_runs scr' ! k)"
      by simp
    with True r upd show ?thesis
      by (simp add: step.simps text_view_def new_run_def)
  next
    case False
    with len nth have "\<not> (k < length (effect_runs scr') \<and> \<not> answered (effect_runs scr' ! k))"
      by auto
    then have "step p' (RefinementAnswers k resp) scr' = scr'" by (auto simp: step.simps)
    moreover from False have "step p (RefinementAnswers k resp) scr = scr"
      by (auto simp: step.simps)
    ultimately show ?thesis using assms by simp
  qed
qed

lemma text_view_step:
  assumes "text_view scr = text_view scr'"
  shows "text_view (step p ev scr) = text_view (step p' (with_store_outcome a b ev) scr')"
proof (cases ev)
  case (RefinementAnswers k resp)
  with text_view_answer [OF assms] show ?thesis by simp
next
  case (LookupReturns k w)
  with assms show ?thesis by (simp add: text_view_def)
next
  case (InsertReturns k w)
  with assms show ?thesis by (simp add: text_view_def)
qed

lemma text_view_events:
  "text_view scr = text_view scr' \<Longrightarrow>
   text_view (run_events p evs scr) =
     text_view (run_events p' (map (with_store_outcome a b) evs) scr')"
proof (induction evs arbitrary: scr scr')
  case Nil
  then show ?case by (simp add: run_events_def)
next
  case (Cons ev evs)
  from text_view_step [OF Cons.prems] have
    "text_view (step p ev scr) = text_view (step p' (with_store_outcome a b ev) scr')" .
  from Cons.IH [OF this] show ?case by (simp add: run_events_def)
qed

lemma shown_text_independent:
  "refinedText (run_events p evs (mount p st)) =
   refinedText (run_events p (map (with_store_outcome a b) evs) (mount p st2))"
proof -
  have "text_view (mount p st) = text_view (mount p st2)"
    by (simp add: text_view_def mount_def)
  from text_view_events [OF this, of p evs p a b] show ?thesis
    by (simp add: text_view_def)
qed

subsection \<open>The same pair twice\<close>

lemma twice_exactly_one:
  assumes turn: "visits_in_turn [(p1, evs1), (p2, evs2)] st"
    and ok: "list_all statement_succeeds evs1"
    and wr: "writable p1 st" and nd: "no_duplicates st"
    and same: "r_transcription p2 = r_transcription p1" "r_selectedLanguage p2 = r_selectedLanguage p1"
    and lang: "r_selectedLanguage p1 = Some l"
  shows "count_pair (r_transcription p1, l) (visits [(p1, evs1), (p2, evs2)] st) = 1"
proof -
  let ?st1 = "visit p1 evs1 st"
  let ?st2 = "visit p2 evs2 ?st1"
  from turn have t1: "in_turn p1 evs1 (mount p1 st)" "list_all lookup_succeeds evs1"
    and over: "checks_over (run_events p1 evs1 (mount p1 st))"
    and t2: "in_turn p2 evs2 (mount p2 ?st1)" "list_all lookup_succeeds evs2"
    by simp_all
  from checks_over_key_stored [OF wr ok over] have "key_stored p1 ?st1" .
  then have "key_stored p1 ?st2"
    using events_key_stored_mono [of p1 "mount p2 ?st1" p2 evs2] by (simp add: visit_def)
  moreover from visit_no_duplicates [OF t1 nd] have "no_duplicates ?st1" .
  from visit_no_duplicates [OF t2 this] have "no_duplicates ?st2" .
  ultimately show ?thesis
    using lang key_stored_row [of p1 l ?st2] distinct_key_once [of pair_of "stored_translations ?st2"]
    by (auto simp: no_duplicates_def count_pair_def)
qed

lemmas example_eval =
  race_def one_by_one_def retry_after_fault_def bonjour_def polished_def trim_polished
  checks_over_def no_duplicates_def pair_of_def count_pair_def raw_row_def

subsection \<open>No duplicate records\<close>

text \<open>
  \<^bold>\<open>C1.\<close> As stated the claim fails, in two ways. \<^verbatim>\<open>checkIfTranslationExists\<close> answers
  \<^verbatim>\<open>null\<close> both when no record matches and when its query throws, and \<^verbatim>\<open>checkTranslation\<close>
  inserts on \<^verbatim>\<open>null\<close>: with the record for ("Bonjour", "en") in the store, a failing lookup
  and a successful insert leave the pair twice. And the effect starts \<^verbatim>\<open>checkTranslation\<close>
  without \<^verbatim>\<open>await\<close> and is run again as soon as the refinement has replaced
  \<^verbatim>\<open>refinedText\<close>: in \<open>race\<close> no call fails, both lookups find nothing, both inserts go
  through, and a store that held no record holds the pair twice when every call has
  settled.
\<close>

theorem duplicates_by_fault_and_by_overlap:
  "no_duplicates two_row_store \<and>
   map pair_of (stored_translations
      (visit bonjour [LookupReturns 0 Fault, InsertReturns 0 Ok, RefinementAnswers 0 Rejected]
         two_row_store)) =
     [(''Bonjour'', ''en''), (''Merci'', ''en''), (''Bonjour'', ''en'')] \<and>
   no_duplicates fresh_store \<and>
   list_all lookup_succeeds race \<and>
   checks_over (run_events bonjour race (mount bonjour fresh_store)) \<and>
   map pair_of (stored_translations (visit bonjour race fresh_store)) =
     [(''Bonjour'', ''en''), (''Bonjour'', ''en'')]"
  by (simp add: store_eval screen_eval example_eval)

text \<open>
  \<^bold>\<open>C1, as amended.\<close> A check whose lookup does not throw and whose insert follows with
  nothing in between keeps a store without duplicates so. A visit in which no lookup
  throws and the events are in turn (the effect is run again only when no earlier run
  waits for its lookup or its insert) keeps a store without duplicates so, at every point
  of the visit; and so does every sequence of such visits, each with its checks over when
  the next one starts. When the store holds a record for the pair and no lookup throws,
  nothing is written, in whatever order the calls settle. And two such visits with the
  same transcript and target language, on an open store with a translations table, the
  lookups and inserts of the first going through, leave exactly one record for the pair.
  Of the visits in which the runs of the effect overlap nothing is claimed.
\<close>

theorem no_duplicates_in_turn:
  "(no_duplicates st \<longrightarrow> no_duplicates (snd (checkTranslation Ok wi p r st))) \<and>
   (in_turn p evs (mount p st) \<and> list_all lookup_succeeds evs \<and> no_duplicates st \<longrightarrow>
      no_duplicates (visit p evs st)) \<and>
   (visits_in_turn vs st \<and> no_duplicates st \<longrightarrow> no_duplicates (visits vs st)) \<and>
   (db_defined st \<and> translations_table (disk st) = Some rows \<and>
    r_selectedLanguage p = Some l \<and> (r_transcription p, l) \<in> set (map pair_of rows) \<longrightarrow>
      checkTranslation Ok wi p r st = (Inr (), st) \<and>
      (list_all lookup_succeeds evs \<longrightarrow> visit p evs st = st)) \<and>
   (visits_in_turn [(p1, evs1), (p2, evs2)] st \<and> list_all statement_succeeds evs1 \<and>
    db_defined st \<and> translations_table (disk st) = Some rows \<and> no_duplicates st \<and>
    r_transcription p2 = r_transcription p1 \<and>
    r_selectedLanguage p1 = Some l \<and> r_selectedLanguage p2 = Some l \<longrightarrow>
      count_pair (r_transcription p1, l) (visits [(p1, evs1), (p2, evs2)] st) = 1)"
proof -
  have found: "visit p evs st = st"
    if "db_defined st" "translations_table (disk st) = Some rows" "r_selectedLanguage p = Some l"
      "(r_transcription p, l) \<in> set (map pair_of rows)" "list_all lookup_succeeds evs"
  proof -
    from that(2,3,4) have "key_stored p st"
      by (simp add: key_stored_row stored_translations_def)
    with that(1,2) have "settled p (mount p st)" by (simp add: settled_def)
    from settled_events [OF this that(5)] show ?thesis by (simp add: visit_def)
  qed
  show ?thesis
    using checkTranslation_no_duplicates [of Ok st wi p r] visit_no_duplicates [of p evs st]
      visits_no_duplicates [of vs st] checkTranslation_found [of st rows p l wi r]
      found twice_exactly_one [of p1 evs1 p2 evs2 st l]
    by (simp add: writable_def)
qed

theorem no_duplicates_in_turn_witness:
  "visits_in_turn [(bonjour, one_by_one), (bonjour, [LookupReturns 0 Ok])] fresh_store \<and>
   list_all statement_succeeds one_by_one \<and>
   no_duplicates fresh_store \<and>
   no_duplicates (visits [(bonjour, one_by_one), (bonjour, [LookupReturns 0 Ok])] fresh_store) \<and>
   count_pair (''Bonjour'', ''en'')
     (visits [(bonjour, one_by_one), (bonjour, [LookupReturns 0 Ok])] fresh_store) = 1"
proof -
  let ?vs = "[(bonjour, one_by_one), (bonjour, [LookupReturns 0 Ok])]"
  have turn: "visits_in_turn ?vs fresh_store"
    by (simp add: store_eval screen_eval example_eval)
  have ok: "list_all statement_succeeds one_by_one" by (simp add: one_by_one_def)
  have nd: "no_duplicates fresh_store" by (simp add: store_eval screen_eval example_eval)
  have shape: "db_defined fresh_store" "translations_table (disk fresh_store) = Some []"
    "r_transcription bonjour = ''Bonjour''" "r_selectedLanguage bonjour = Some ''en''"
    by (simp_all add: store_eval bonjour_def)
  from no_duplicates_in_turn [of fresh_store Ok bonjour "[]" "[]" ?vs "[]" "''en''"
      bonjour one_by_one bonjour "[LookupReturns 0 Ok]"] turn ok nd shape
  show ?thesis by simp
qed

subsection \<open>The stored text\<close>




subsection \<open>Failures of the store\<close>

text \<open>
  \<^bold>\<open>C3.\<close> As stated the claim fails: nothing the screen gets back tells whether the record was
  written, was there already, or could not be written. With the insert failing and with
  the insert going through, \<^verbatim>\<open>checkTranslation\<close> settles to the same value and the screen
  shows the same text, while the store holds no record in the first case and the new
  record in the second.
\<close>

theorem no_persistence_status:
  "fst (checkTranslation Ok Fault bonjour ''Hello'' fresh_store) =
     fst (checkTranslation Ok Ok bonjour ''Hello'' fresh_store) \<and>
   refinedText (run_events bonjour
      [LookupReturns 0 Ok, InsertReturns 0 Fault, RefinementAnswers 0 Rejected]
      (mount bonjour fresh_store)) =
     refinedText (run_events bonjour
      [LookupReturns 0 Ok, InsertReturns 0 Ok, RefinementAnswers 0 Rejected]
      (mount bonjour fresh_store)) \<and>
   stored_translations (snd (checkTranslation Ok Fault bonjour ''Hello'' fresh_store)) = [] \<and>
   stored_translations (snd (checkTranslation Ok Ok bonjour ''Hello'' fresh_store)) =
     [\<lparr>t_id = 1, t_original_text = ''Bonjour'', t_language = ''en'',
       t_translated_text = ''Hello''\<rparr>] \<and>
   stored_translations (visit bonjour
      [LookupReturns 0 Ok, InsertReturns 0 Fault, RefinementAnswers 0 Rejected] fresh_store) = [] \<and>
   stored_translations (visit bonjour
      [LookupReturns 0 Ok, InsertReturns 0 Ok, RefinementAnswers 0 Rejected] fresh_store) =
     [\<lparr>t_id = 1, t_original_text = ''Bonjour'', t_language = ''en'',
       t_translated_text = ''Hello''\<rparr>]"
  by (simp add: store_eval check_eval screen_eval bonjour_def)

text \<open>
  \<^bold>\<open>C3, as amended.\<close> \<^verbatim>\<open>checkTranslation\<close> always resolves, without a value; when the
  insert throws, the store is left as it was; and the text on the screen does not depend
  on the store nor on the outcome of the lookup and of the insert, at any point of a visit
  and in whatever order the calls settle.
\<close>

theorem persistence_failure_is_silent:
  "fst (checkTranslation wl wi p r st) = Inr () \<and>
   (runAsync wi (insert_translation (r_transcription p) (r_selectedLanguage p) r) st = Inl e \<longrightarrow>
      snd (checkTranslation wl wi p r st) = st) \<and>
   screen_store (step p (InsertReturns k Fault) scr) = screen_store scr \<and>
   refinedText (run_events p evs (mount p st)) =
     refinedText (run_events p (map (with_store_outcome a b) evs) (mount p st2))"
proof -
  have "runAsync wi (insert_translation (r_transcription p) (r_selectedLanguage p) r) st = Inl e
      \<Longrightarrow> snd (checkTranslation wl wi p r st) = st"
    by (simp add: checkTranslation_def checkIfTranslationExists_def addTranslation_def
        split: sum.split option.split)
  then show ?thesis
    using checkTranslation_resolves [of wl wi p r st]
      shown_text_independent [of p evs st a b st2]
    by simp
qed

theorem persistence_failure_is_silent_witness:
  "runAsync Fault (insert_translation ''Bonjour'' (Some ''en'') ''Hello'') fresh_store =
     Inl SQLiteError \<and>
   checkTranslation Ok Fault bonjour ''Hello'' fresh_store = (Inr (), fresh_store) \<and>
   refinedText (run_events bonjour
      [RefinementAnswers 0 polished, LookupReturns 0 Ok, LookupReturns 1 Fault,
       InsertReturns 0 Fault, InsertReturns 1 Fault] (mount bonjour two_row_store)) =
     ''Hello there''"
proof -
  have fails: "runAsync Fault (insert_translation (r_transcription bonjour)
      (r_selectedLanguage bonjour) ''Hello'') fresh_store = Inl SQLiteError"
    by (simp add: store_eval bonjour_def)
  from persistence_failure_is_silent [of Ok Fault bonjour "''Hello''" fresh_store SQLiteError
      0 "mount bonjour fresh_store" race Ok Fault two_row_store] fails
  have "checkTranslation Ok Fault bonjour ''Hello'' fresh_store = (Inr (), fresh_store)"
    and "refinedText (run_events bonjour race (mount bonjour fresh_store)) =
       refinedText (run_events bonjour (map (with_store_outcome Ok Fault) race)
         (mount bonjour two_row_store))"
    by (simp_all add: prod_eq_iff)
  moreover have "refinedText (run_events bonjour race (mount bonjour fresh_store)) =
      ''Hello there''"
    by (simp add: store_eval screen_eval example_eval)
  moreover have "refinedText (run_events bonjour (map (with_store_outcome Ok Fault) race)
         (mount bonjour two_row_store)) =
     refinedText (run_events bonjour
      [RefinementAnswers 0 polished, LookupReturns 0 Ok, LookupReturns 1 Fault,
       InsertReturns 0 Fault, InsertReturns 1 Fault] (mount bonjour two_row_store))"
    by (simp add: store_eval screen_eval example_eval)
  ultimately show ?thesis using fails by (simp add: bonjour_def)
qed

subsection \<open>Refinement\<close>

lemma first_run_completes:
  assumes quiet: "refinement_fails_or_empty resp"
    and sched: "sched \<in> set (first_run_schedules resp wl wi)"
  shows "run_events p sched (mount p st) =
           \<lparr>refinedText = r_translatedText p,
            effect_runs =
              [\<lparr>closure_text = r_translatedText p, answered = True, stage = Finished\<rparr>],
            screen_store = snd (checkTranslation wl wi p (r_translatedText p) st)\<rparr>"
proof -
  obtain found where found:
    "checkIfTranslationExists wl (r_transcription p) (r_selectedLanguage p) st = Inr found"
    using lookup_resolves by blast
  from quiet have same: "snd (after_refine resp (r_translatedText p)) = r_translatedText p"
    by (rule refinement_fallback)
  from sched consider
      "sched = [RefinementAnswers 0 resp, LookupReturns 0 wl, InsertReturns 0 wi]"
    | "sched = [LookupReturns 0 wl, RefinementAnswers 0 resp, InsertReturns 0 wi]"
    | "sched = [LookupReturns 0 wl, InsertReturns 0 wi, RefinementAnswers 0 resp]"
    by (auto simp: first_run_schedules_def)
  then show ?thesis
  proof cases
    case 1
    with found same show ?thesis
      by (cases found)
        (simp_all add: step.simps run_events_def mount_def new_run_def mark_answered_def
          mark_stage_def checkTranslation_def)
  next
    case 2
    with found same show ?thesis
      by (cases found)
        (simp_all add: step.simps run_events_def mount_def new_run_def mark_answered_def
          mark_stage_def checkTranslation_def)
  next
    case 3
    with found same show ?thesis
      by (cases found)
        (simp_all add: step.simps run_events_def mount_def new_run_def mark_answered_def
          mark_stage_def checkTranslation_def)
  qed
qed

text \<open>
  \<^bold>\<open>C4.\<close> When the refinement call fails or gives nothing (rejected call, rejected response,
  no text, or a text that is empty once trimmed), then in each order in which the three
  calls of the first run can settle the visit ends with every call settled and no further
  run of the effect, the screen shows the raw translation, and the store is the one a
  single \<^verbatim>\<open>checkTranslation\<close> with the raw translation leaves. At every point of a visit
  in which no refinement call has given a text, the screen shows the raw translation, the
  first run of the effect is the only one, and the store is as it was or as such a check
  leaves it. What the check leaves is the store as it was or with one more record that
  holds the raw translation: exactly that record when the store is open, has its table
  and no record for the pair and both statements go through, and nothing new when it has
  a record for the pair.
\<close>

theorem refinement_failure_falls_back:
  "(refinement_fails_or_empty resp \<and> sched \<in> set (first_run_schedules resp wl wi) \<longrightarrow>
      run_events p sched (mount p st) =
        \<lparr>refinedText = r_translatedText p,
         effect_runs =
           [\<lparr>closure_text = r_translatedText p, answered = True, stage = Finished\<rparr>],
         screen_store = snd (checkTranslation wl wi p (r_translatedText p) st)\<rparr>) \<and>
   (list_all no_refinement evs \<longrightarrow>
      refinedText (run_events p evs (mount p st)) = r_translatedText p \<and>
      map closure_text (effect_runs (run_events p evs (mount p st))) = [r_translatedText p] \<and>
      (visit p evs st = st \<or>
       (\<exists>wl' wi'. visit p evs st = snd (checkTranslation wl' wi' p (r_translatedText p) st)))) \<and>
   (stored_translations (snd (checkTranslation wl wi p (r_translatedText p) st)) =
      stored_translations st \<or>
    (\<exists>i l. r_selectedLanguage p = Some l \<and>
       stored_translations (snd (checkTranslation wl wi p (r_translatedText p) st)) =
         stored_translations st @ [raw_row i p l (r_translatedText p)])) \<and>
   (db_defined st \<and> translations_table (disk st) = Some rows \<and>
    r_selectedLanguage p = Some l \<and> (r_transcription p, l) \<notin> set (map pair_of rows) \<longrightarrow>
      stored_translations (snd (checkTranslation Ok Ok p (r_translatedText p) st)) =
        rows @ [raw_row (next_rowid (disk st) rows) p l (r_translatedText p)]) \<and>
   (db_defined st \<and> translations_table (disk st) = Some rows \<and>
    r_selectedLanguage p = Some l \<and> (r_transcription p, l) \<in> set (map pair_of rows) \<longrightarrow>
      checkTranslation Ok wi p (r_translatedText p) st = (Inr (), st))"
proof -
  have quiet: "refinedText (run_events p evs (mount p st)) = r_translatedText p \<and>
      map closure_text (effect_runs (run_events p evs (mount p st))) = [r_translatedText p] \<and>
      (visit p evs st = st \<or>
       (\<exists>wl' wi'. visit p evs st = snd (checkTranslation wl' wi' p (r_translatedText p) st)))"
    if "list_all no_refinement evs"
    using quiet_inv_events [OF quiet_inv_mount that, of p st]
    by (auto simp: quiet_inv_def visit_def closures_def)
  show ?thesis
    using first_run_completes [of resp sched wl wi p st] quiet
      checkTranslation_stored [of wl wi p "r_translatedText p" st]
      checkTranslation_writes [of st rows p l "r_translatedText p"]
      checkTranslation_found [of st rows p l wi "r_translatedText p"]
    by simp
qed

theorem refinement_failure_falls_back_witness:
  "refinement_fails_or_empty blank_reply \<and>
   [LookupReturns 0 Ok, RefinementAnswers 0 blank_reply, InsertReturns 0 Ok] \<in>
     set (first_run_schedules blank_reply Ok Ok) \<and>
   list_all no_refinement [LookupReturns 0 Ok, RefinementAnswers 0 blank_reply, InsertReturns 0 Ok] \<and>
   refinedText (run_events bonjour
      [LookupReturns 0 Ok, RefinementAnswers 0 blank_reply, InsertReturns 0 Ok]
      (mount bonjour fresh_store)) = ''Hello'' \<and>
   stored_translations (visit bonjour
      [LookupReturns 0 Ok, RefinementAnswers 0 blank_reply, InsertReturns 0 Ok] fresh_store) =
     [\<lparr>t_id = 1, t_original_text = ''Bonjour'', t_language = ''en'',
       t_translated_text = ''Hello''\<rparr>]"
proof -
  let ?sched = "[LookupReturns 0 Ok, RefinementAnswers 0 blank_reply, InsertReturns 0 Ok]"
  have blank: "refinement_fails_or_empty blank_reply"
    by (simp add: blank_reply_def trim_blank)
  have sched: "?sched \<in> set (first_run_schedules blank_reply Ok Ok)"
    by (simp add: first_run_schedules_def)
  have quiet: "list_all no_refinement ?sched" using blank by simp
  have shape: "db_defined fresh_store" "translations_table (disk fresh_store) = Some []"
    "r_selectedLanguage bonjour = Some ''en''" "r_translatedText bonjour = ''Hello''"
    "r_transcription bonjour = ''Bonjour''" "next_rowid (disk fresh_store) [] = 1"
    by (simp_all add: store_eval bonjour_def next_rowid_def)
  from refinement_failure_falls_back [of blank_reply ?sched Ok Ok bonjour fresh_store ?sched
      "[]" "''en''"] blank sched quiet shape
  show ?thesis by (simp add: visit_def raw_row_def)
qed

section \<open>Properties of the source language\<close>

lemma supported_en: "supported ''en''"
  by (simp add: supported_def languages_def)

lemma supported_nonempty: "supported c \<Longrightarrow> c \<noteq> []"
  by (auto simp: supported_def languages_def)

lemma supported_picker: "n < length languages \<Longrightarrow> supported (lang_value (languages ! n))"
  by (simp add: supported_def)

lemma supported_locale:
  "supported c \<Longrightarrow>
   \<exists>locale. (c, locale) \<in> set languageMapping_entries \<and>
     value_or (languageMapping c) ''en-GB'' = Text locale"
  by (auto simp: supported_def languages_def languageMapping_def languageMapping_entries_def)

lemma unset_codes:
  "unset settings \<Longrightarrow>
   shortCode_of settings = ''en-GB'' \<and> languageCode_of settings = Text ''en-GB''"
  by (cases settings)
    (simp_all add: shortCode_of_def languageCode_of_def languageMapping_def
      languageMapping_entries_def object_prototype_keys_def)

text \<open>A key the mapping inherits is answered with a value that is not a string.\<close>

lemma inherited_key_resolves:
  "languageCode_of [\<lparr>s_id = 1, s_language = Some ''constructor''\<rparr>] = Inherited ''constructor''"
  by (simp add: shortCode_of_def languageCode_of_def languageMapping_def
      languageMapping_entries_def object_prototype_keys_def)

subsection \<open>What the application stores as the language\<close>

lemma fetchSettings_cases:
  "fetchSettings w st = Inr [] \<or>
   (\<exists>rows. settings_table (disk st) = Some rows \<and> fetchSettings w st = Inr rows)"
  by (cases w)
    (auto simp: fetchSettings_def query_def select_all_settings_def split: option.split)

lemma fetched_valid:
  assumes "settings_valid st" and "fetchSettings w st = Inr (first # rest)"
  shows "\<exists>c. s_language first = Some c \<and> supported c"
proof -
  from fetchSettings_cases [of w st] assms(2)
  have "settings_table (disk st) = Some (first # rest)" by auto
  with assms(1) show ?thesis
    by (cases "s_language first") (simp_all add: settings_valid_def)
qed

lemma setupDatabase_valid:
  "settings_valid st \<Longrightarrow> settings_valid (snd (setupDatabase w0 w1 w2 st))"
  by (cases w0; cases w1; cases w2)
    (auto simp: settings_valid_def setupDatabase_def runAsync_def query_def
      create_settings_table_def create_translations_table_def split: option.splits)

lemma loadInitialData_valid:
  "settings_valid st \<Longrightarrow> settings_valid (snd (loadInitialData w1 w2 st))"
  by (cases w1; cases w2)
    (auto simp: settings_valid_def loadInitialData_def runAsync_def query_def
      select_count_settings_def insert_default_settings_def supported_en split: option.splits)

lemma initialise_valid:
  "settings_valid st \<Longrightarrow> settings_valid (initialise w0 w1 w2 w3 w4 (st\<lparr>db_defined := False\<rparr>))"
proof -
  assume "settings_valid st"
  then have "settings_valid (st\<lparr>db_defined := False\<rparr>)" by (simp add: settings_valid_def)
  then show ?thesis
    by (simp add: initialise_def setupDatabase_valid loadInitialData_valid)
qed

lemma updateSettings_valid:
  "settings_valid st \<Longrightarrow> supported c \<Longrightarrow> settings_valid (snd (updateSettings w c st))"
  by (cases w)
    (auto simp: settings_valid_def updateSettings_def runAsync_def query_def
      update_settings_language_def list_all_iff split: option.splits)

lemma deleteTranslation_valid:
  "settings_valid st \<Longrightarrow> settings_valid (snd (deleteTranslation w i st))"
  by (cases w)
    (auto simp: settings_valid_def deleteTranslation_def runAsync_def query_def
      delete_translation_def split: option.splits)

lemma step_settings:
  "settings_table (disk (screen_store (step p ev scr))) = settings_table (disk (screen_store scr))"
proof (cases ev)
  case (InsertReturns k w)
  with step_insert [of p k w scr] addTranslation_shape show ?thesis by auto
qed simp_all

lemma visit_settings: "settings_table (disk (visit p evs st)) = settings_table (disk st)"
proof -
  have "settings_table (disk (screen_store (run_events p evs scr))) =
      settings_table (disk (screen_store scr))" for scr
    by (induction evs arbitrary: scr) (simp_all add: run_events_def step_settings)
  from this [of "mount p st"] show ?thesis by (simp add: visit_def)
qed

lemma settings_step_supported:
  assumes "settings_valid st" and "supported selected"
  shows "supported (settings_step st ev selected)"
proof (cases ev)
  case (SettingsLoaded w)
  show ?thesis
  proof (cases "fetchSettings w st")
    case (Inl e)
    with SettingsLoaded assms(2) show ?thesis by simp
  next
    case (Inr settings)
    show ?thesis
    proof (cases settings)
      case Nil
      with Inr SettingsLoaded assms(2) show ?thesis by simp
    next
      case (Cons first rest)
      with Inr fetched_valid [OF assms(1), of w first rest]
      obtain c where "s_language first = Some c" "supported c" by auto
      with Cons Inr SettingsLoaded show ?thesis by (simp add: supported_nonempty)
    qed
  qed
next
  case (LanguagePicked n)
  with assms(2) show ?thesis by (simp add: supported_picker)
qed

lemma SettingsForm_supported:
  assumes "settings_valid st"
  shows "supported (SettingsForm st evs)"
proof -
  have "supported selected \<Longrightarrow> supported (fold (settings_step st) evs selected)" for selected
    by (induction evs arbitrary: selected) (simp_all add: settings_step_supported [OF assms])
  from this [OF supported_en] show ?thesis by (simp add: SettingsForm_def)
qed

lemma act_valid: "settings_valid st \<Longrightarrow> settings_valid (act a st)"
proof (cases a)
  case (Launch w0 w1 w2 w3 w4)
  assume "settings_valid st"
  with Launch show ?thesis by (simp add: initialise_valid)
next
  case (SaveLanguage evs w)
  assume "settings_valid st"
  with SaveLanguage show ?thesis
    by (simp add: handleSave_def updateSettings_valid SettingsForm_supported)
next
  case (Speak p evs)
  assume "settings_valid st"
  with Speak show ?thesis by (simp add: settings_valid_def visit_settings)
next
  case (DeleteItem w i)
  assume "settings_valid st"
  with DeleteItem show ?thesis by (simp add: deleteTranslation_valid)
qed

lemma app_valid: "settings_valid (app acts)"
proof -
  have "settings_valid st \<Longrightarrow> settings_valid (fold act acts st)" for st
    by (induction acts arbitrary: st) (simp_all add: act_valid)
  moreover have "settings_valid initial_store"
    by (simp add: settings_valid_def initial_store_def empty_disk_def)
  ultimately show ?thesis by (simp add: app_def)
qed

subsection \<open>What the stages resolve\<close>

lemma transcription_valid:
  assumes "settings_valid st" and "fetchSettings w st = Inr settings"
  shows "\<exists>locale. languageCode_of settings = Text locale \<and> locale \<in> set locale_codes"
proof (cases settings)
  case Nil
  then show ?thesis using unset_codes [of settings] by (simp add: locale_codes_def)
next
  case (Cons first rest)
  with assms fetched_valid [of st w first rest]
  obtain c where c: "s_language first = Some c" "supported c" by auto
  from supported_locale [OF c(2)] obtain code
    where "(c, code) \<in> set languageMapping_entries"
      "value_or (languageMapping c) ''en-GB'' = Text code"
    by auto
  with Cons c show ?thesis
    by (force simp: languageCode_of_def shortCode_of_def supported_nonempty locale_codes_def)
qed

lemma loadSettings_stored_valid:
  assumes "settings_valid st" and "stored_valid fs"
  shows "stored_valid (loadSettings w st fs)"
proof (cases "fetchSettings w st")
  case (Inl e)
  with assms(2) show ?thesis by (simp add: loadSettings_def)
next
  case (Inr settings)
  show ?thesis
  proof (cases settings)
    case Nil
    with Inr assms(2) show ?thesis by (simp add: loadSettings_def stored_valid_def)
  next
    case (Cons first rest)
    with Inr fetched_valid [OF assms(1), of w first rest]
    obtain c where "s_language first = Some c" "supported c" by auto
    with Cons Inr show ?thesis
      by (simp add: loadSettings_def stored_valid_def supported_nonempty Let_def
          split: list.split)
  qed
qed

lemma form_step_stored_valid:
  "settings_valid st \<Longrightarrow> stored_valid fs \<Longrightarrow> stored_valid (form_step st ev fs)"
proof (cases ev)
  case (SettingsAnswer w)
  assume "settings_valid st" "stored_valid fs"
  with SettingsAnswer show ?thesis by (simp add: loadSettings_stored_valid)
next
  case (TargetPicked n)
  assume "settings_valid st" "stored_valid fs"
  with TargetPicked show ?thesis by (simp add: onValueChange_def stored_valid_def)
qed

lemma TranslationForm_stored_valid:
  assumes "settings_valid st"
  shows "stored_valid (TranslationForm st evs)"
proof -
  have "stored_valid fs \<Longrightarrow> stored_valid (fold (form_step st) evs fs)" for fs
    by (induction evs arbitrary: fs) (simp_all add: form_step_stored_valid [OF assms])
  moreover have "stored_valid initial_form" by (simp add: stored_valid_def initial_form_def)
  ultimately show ?thesis by (simp add: TranslationForm_def)
qed

lemma translation_source_valid:
  assumes "settings_valid st"
  shows "supported (source (requestBody t (TranslationForm st evs)))"
proof -
  from TranslationForm_stored_valid [OF assms, of evs] show ?thesis
    by (cases "storedLanguage (TranslationForm st evs)")
      (simp_all add: requestBody_def stored_valid_def supported_en supported_nonempty)
qed

text \<open>With no language stored, every reading of the settings gives no language.\<close>

lemma unset_any_read:
  assumes "fetchSettings Ok st = Inr settings" and "unset settings"
  shows "\<exists>settings'. fetchSettings w st = Inr settings' \<and> unset settings'"
proof (cases w)
  case Ok
  with assms show ?thesis by simp
next
  case Fault
  then have "fetchSettings w st = Inr []"
    by (simp add: fetchSettings_def query_def)
  then show ?thesis by simp
qed

lemma or_else_unset: "unset (first # rest) \<Longrightarrow> or_else (s_language first) ''en'' = ''en''"
  by (cases "s_language first") auto

lemma loadSettings_unset:
  assumes "fetchSettings Ok st = Inr settings" and "unset settings"
    and "or_else (storedLanguage fs) ''en'' = ''en''"
  shows "or_else (storedLanguage (loadSettings w st fs)) ''en'' = ''en''"
proof -
  from unset_any_read [OF assms(1,2), of w] obtain settings'
    where read: "fetchSettings w st = Inr settings'" and none: "unset settings'" by auto
  show ?thesis
  proof (cases settings')
    case Nil
    with read assms(3) show ?thesis by (simp add: loadSettings_def)
  next
    case (Cons first rest)
    with none have "or_else (s_language first) ''en'' = ''en''" by (simp add: or_else_unset)
    with Cons read show ?thesis
      by (simp add: loadSettings_def Let_def split: list.split)
  qed
qed

lemma TranslationForm_unset:
  assumes "fetchSettings Ok st = Inr settings" and "unset settings"
  shows "source (requestBody t (TranslationForm st evs)) = ''en''"
proof -
  have step: "or_else (storedLanguage (form_step st ev fs)) ''en'' = ''en''"
    if "or_else (storedLanguage fs) ''en'' = ''en''" for ev fs
    using that loadSettings_unset [OF assms, of fs]
    by (cases ev) (simp_all add: onValueChange_def)
  have "or_else (storedLanguage fs) ''en'' = ''en'' \<Longrightarrow>
      or_else (storedLanguage (fold (form_step st) evs fs)) ''en'' = ''en''" for fs
    by (induction evs arbitrary: fs) (simp_all add: step)
  then show ?thesis by (simp add: TranslationForm_def requestBody_def initial_form_def)
qed

lemma settings_load_unset:
  assumes "fetchSettings Ok st = Inr settings" and "unset settings"
  shows "settings_step st (SettingsLoaded w) ''en'' = ''en''"
proof -
  from unset_any_read [OF assms, of w] obtain settings'
    where read: "fetchSettings w st = Inr settings'" and none: "unset settings'" by auto
  then show ?thesis
    by (cases settings') (simp_all add: or_else_unset)
qed

text \<open>
  \<^bold>\<open>C6.\<close> As stated the claim fails: the stages do not share one default. With no settings to
  read, the translation form names "en" as the source, while the transcription takes the
  short code "en-GB", which is not a key of the mapping, and asks for the locale "en-GB";
  with "en" stored it asks for "en-US".
\<close>

theorem transcription_default_is_not_en:
  "shortCode_of [] = ''en-GB'' \<and>
   map languageCode (sent (sendAudioForTranscription Fault fresh_store Ios (Inr True)
      (Inr ''UklGRg=='') speech_unavailable)) = [Text ''en-GB''] \<and>
   map languageCode (sent (sendAudioForTranscription Ok fresh_store Ios (Inr True)
      (Inr ''UklGRg=='') speech_unavailable)) = [Text ''en-US''] \<and>
   source (requestBody ''Hello'' (TranslationForm fresh_store [SettingsAnswer Fault])) = ''en''"
  by (simp add: store_eval form_eval TranslationForm_def shortCode_of_def languageCode_of_def
      languageMapping_def languageMapping_entries_def object_prototype_keys_def
      sendAudioForTranscription_def after_fetch_sent formData_of_def)

text \<open>
  \<^bold>\<open>C6, as amended.\<close> On every store the application can bring about (starts, saves on the
  settings screen, visits of the speaker screen and deletes, with any of their calls
  failing), the transcription asks for one of the locales of the mapping or for "en-GB",
  the translation form names one of the codes of the pickers as the source, at every
  moment, also before its settings have been read, and the settings form shows one of
  these codes. When no language is stored (no row, or a first row whose language is null
  or empty), the translation form names "en" and the settings form reads "en", while the
  transcription takes the short code and the locale "en-GB".
\<close>

theorem source_language_resolution:
  "(fetchSettings w (app acts) = Inr settings \<longrightarrow>
      (\<exists>locale. languageCode_of settings = Text locale \<and> locale \<in> set locale_codes)) \<and>
   supported (source (requestBody t (TranslationForm (app acts) evs))) \<and>
   supported (SettingsForm (app acts) evs') \<and>
   (fetchSettings Ok st = Inr settings' \<and> unset settings' \<longrightarrow>
      source (requestBody t (TranslationForm st evs)) = ''en'' \<and>
      settings_step st (SettingsLoaded w) ''en'' = ''en'' \<and>
      shortCode_of settings' = ''en-GB'' \<and> languageCode_of settings' = Text ''en-GB'')"
  using transcription_valid [OF app_valid, of w acts settings]
    translation_source_valid [OF app_valid, of t acts evs]
    SettingsForm_supported [OF app_valid, of acts evs']
    TranslationForm_unset [of st settings' t evs] settings_load_unset [of st settings' w]
    unset_codes [of settings']
  by simp

theorem source_language_resolution_witness:
  "fetchSettings Ok (app french_saved) = Inr [\<lparr>s_id = 1, s_language = Some ''fr''\<rparr>] \<and>
   languageCode_of [\<lparr>s_id = 1, s_language = Some ''fr''\<rparr>] = Text ''fr-FR'' \<and>
   source (requestBody ''Hello'' (TranslationForm (app french_saved) [SettingsAnswer Ok])) =
     ''fr'' \<and>
   supported ''fr'' \<and>
   source (requestBody ''Hello'' (TranslationForm (app french_saved) [])) = ''en'' \<and>
   fetchSettings Ok (app [Launch Ok Ok Ok Ok Fault]) = Inr [] \<and> unset [] \<and>
   source (requestBody ''Hello''
      (TranslationForm (app [Launch Ok Ok Ok Ok Fault]) [SettingsAnswer Ok, TargetPicked 1])) =
     ''en'' \<and>
   languageCode_of [] = Text ''en-GB''"
proof -
  have french: "app french_saved =
      \<lparr>db_defined = True,
       disk = \<lparr>settings_table = Some [\<lparr>s_id = 1, s_language = Some ''fr''\<rparr>],
               translations_table = Some [], sqlite_sequence = 0\<rparr>\<rparr>"
    by (simp add: french_saved_def app_def store_eval handleSave_def updateSettings_def
        update_settings_language_def SettingsForm_def fetchSettings_def select_all_settings_def
        languages_def)
  have unseeded: "app [Launch Ok Ok Ok Ok Fault] =
      \<lparr>db_defined = True,
       disk = \<lparr>settings_table = Some [], translations_table = Some [],
               sqlite_sequence = 0\<rparr>\<rparr>"
    by (simp add: app_def store_eval)
  have read: "fetchSettings Ok (app french_saved) = Inr [\<lparr>s_id = 1, s_language = Some ''fr''\<rparr>]"
    by (simp add: french fetchSettings_def query_def select_all_settings_def)
  have none: "fetchSettings Ok (app [Launch Ok Ok Ok Ok Fault]) = Inr []"
    by (simp add: unseeded fetchSettings_def query_def select_all_settings_def)
  have code: "languageCode_of [\<lparr>s_id = 1, s_language = Some ''fr''\<rparr>] = Text ''fr-FR''"
    by (simp add: languageCode_of_def shortCode_of_def languageMapping_def
        languageMapping_entries_def)
  have form: "source (requestBody ''Hello''
      (TranslationForm (app french_saved) [SettingsAnswer Ok])) = ''fr''"
    by (simp add: french TranslationForm_def form_eval query_def select_all_settings_def
        languages_def)
  have early: "source (requestBody ''Hello'' (TranslationForm (app french_saved) [])) = ''en''"
    by (simp add: TranslationForm_def form_eval)
  from source_language_resolution [of Ok french_saved
      "[\<lparr>s_id = 1, s_language = Some ''fr''\<rparr>]" "''Hello''" "[SettingsAnswer Ok]" "[]"
      "app [Launch Ok Ok Ok Ok Fault]" "[]"] read form
  have "supported ''fr''" by simp
  moreover from source_language_resolution [of Ok french_saved
      "[\<lparr>s_id = 1, s_language = Some ''fr''\<rparr>]" "''Hello''"
      "[SettingsAnswer Ok, TargetPicked 1]" "[]" "app [Launch Ok Ok Ok Ok Fault]" "[]"] none
  have "source (requestBody ''Hello''
      (TranslationForm (app [Launch Ok Ok Ok Ok Fault]) [SettingsAnswer Ok, TargetPicked 1])) =
      ''en'' \<and> languageCode_of [] = Text ''en-GB''"
    by simp
  ultimately show ?thesis using read none code form early by simp
qed

end
